theory Spec2Isabelle
  imports Main "HOL-Library.Word"
begin

unbundle bit_operations_syntax

section \<open>Data model of main.c\<close>

type_synonym u8 = "8 word"
type_synonym u32 = "32 word"

text \<open>
  The blink pattern enum of main.c (lines 44-48); \<open>blink_interval_ms\<close> is a
  \<open>uint32_t\<close>.
\<close>

definition BLINK_NOT_MOUNTED :: u32 where
  "BLINK_NOT_MOUNTED = 250"

definition BLINK_MOUNTED :: u32 where
  "BLINK_MOUNTED = 1000"

definition BLINK_SUSPENDED :: u32 where
  "BLINK_SUSPENDED = 2500"

text \<open>
  Modelled from the spec: the headers \<open>usb_descriptors.h\<close> and \<open>tusb.h\<close> are not
  under src/, and the spec names these constants ("the keyboard report id", "the
  left-shift modifier", "the Capslock bit", "base key", "the dedicated space key", "the 1
  key", "left button") without giving numbers. The numerals below are the ones of the
  TinyUSB headers this file is compiled against. The general theorems keep the constants
  folded, so they hold for whatever the headers define; only the closed instances
  evaluate them.
\<close>

definition REPORT_ID_KEYBOARD :: u8 where
  "REPORT_ID_KEYBOARD = 1"

definition REPORT_ID_MOUSE :: u8 where
  "REPORT_ID_MOUSE = 2"

definition HID_KEY_A :: u8 where
  "HID_KEY_A = 0x04"

definition HID_KEY_1 :: u8 where
  "HID_KEY_1 = 0x1E"

definition HID_KEY_SPACE :: u8 where
  "HID_KEY_SPACE = 0x2C"

definition KEYBOARD_MODIFIER_LEFTSHIFT :: u8 where
  "KEYBOARD_MODIFIER_LEFTSHIFT = 0x02"

definition KEYBOARD_LED_CAPSLOCK :: u8 where
  "KEYBOARD_LED_CAPSLOCK = 0x02"

definition MOUSE_BUTTON_LEFT :: u8 where
  "MOUSE_BUTTON_LEFT = 0x01"

datatype hid_report_type_t =
    HID_REPORT_TYPE_INVALID
  | HID_REPORT_TYPE_INPUT
  | HID_REPORT_TYPE_OUTPUT
  | HID_REPORT_TYPE_FEATURE

text \<open>The demo state machine's enum (lines 167-178).\<close>

datatype app_state_t =
    STATE_IDLE
  | STATE_WAIT_INIT
  | STATE_MOUSE_UP
  | STATE_MOUSE_DOWN
  | STATE_CLICK_PRESS
  | STATE_CLICK_RELEASE
  | STATE_WAIT_BEFORE_TYPE
  | STATE_TYPE_CHAR
  | STATE_RELEASE_CHAR
  | STATE_DONE

text \<open>
  Every static variable of main.c, in one record: the file-level \<open>blink_interval_ms\<close>,
  \<open>app_state\<close>, \<open>state_start_ms\<close> and \<open>text_index\<close>, the \<open>start_ms\<close> local to
  \<open>hid_task\<close>, and the \<open>start_ms\<close> and \<open>led_state\<close> local to
  \<open>led_blinking_task\<close> (here \<open>led_start_ms\<close>). \<open>text_index\<close> is a C \<open>int\<close>;
  it is modelled as an unbounded integer, and the bound proved for it below shows that it
  stays far from the range where the machine type would matter.
\<close>

record hid_state =
  blink_interval_ms :: u32
  app_state :: app_state_t
  state_start_ms :: u32
  text_index :: int
  start_ms :: u32
  led_start_ms :: u32
  led_state :: bool

definition init_state :: hid_state where
  "init_state =
     \<lparr>blink_interval_ms = BLINK_NOT_MOUNTED, app_state = STATE_IDLE, state_start_ms = 0,
      text_index = 0, start_ms = 0, led_start_ms = 0, led_state = False\<rparr>"

text \<open>
  What the external collaborators answer during one call of \<open>hid_task\<close>:
  \<open>board_millis()\<close>, \<open>tud_mounted()\<close>, \<open>tud_suspended()\<close>, \<open>tud_hid_ready()\<close>,
  and the boolean that the transport's send primitive (\<open>tud_hid_keyboard_report\<close> or
  \<open>tud_hid_mouse_report\<close>) returns when it is handed a report. One call reads each of
  them as one value: the call runs to completion without servicing the stack in between.
\<close>

record env =
  millis :: u32
  mounted :: bool
  suspended :: bool
  hid_ready :: bool
  xfer_ok :: bool

text \<open>
  The outbound calls main.c makes, in the order it makes them. \<open>KeyboardReport\<close> is a
  call of \<open>tud_hid_keyboard_report(report_id, modifier, keycode)\<close>, with \<open>None\<close> for
  the \<open>NULL\<close> keycode pointer; \<open>MouseReport\<close> is a call of
  \<open>tud_hid_mouse_report(report_id, buttons, x, y, vertical, horizontal)\<close>, the
  \<open>int8_t\<close> arguments as 8-bit words read by \<open>sint\<close>.
\<close>

datatype action =
    KeyboardReport u8 u8 "u8 list option"
  | MouseReport u8 u8 u8 u8 u8 u8
  | RemoteWakeup
  | LedWrite bool

fun is_hid_report :: "action \<Rightarrow> bool" where
  "is_hid_report (KeyboardReport _ _ _) = True"
| "is_hid_report (MouseReport _ _ _ _ _ _) = True"
| "is_hid_report RemoteWakeup = False"
| "is_hid_report (LedWrite _) = False"

text \<open>A read outside the buffer of \<open>text_to_type\<close> is undefined behaviour in C.\<close>

datatype fault = OutOfBoundsRead

section \<open>Report transport helpers (lines 67-115)\<close>

definition send_keyboard_report :: "env \<Rightarrow> u8 \<Rightarrow> u8 \<Rightarrow> u8 list option \<Rightarrow> bool \<times> action list" where
  "send_keyboard_report e report_id modifier keycode =
     (if \<not> hid_ready e then (False, [])
      else (xfer_ok e, [KeyboardReport report_id modifier keycode]))"

definition send_key_press :: "env \<Rightarrow> u8 \<Rightarrow> u8 \<Rightarrow> bool \<times> action list" where
  "send_key_press e modifier key_code =
     send_keyboard_report e REPORT_ID_KEYBOARD modifier (Some [key_code, 0, 0, 0, 0, 0])"

definition send_key_release :: "env \<Rightarrow> bool \<times> action list" where
  "send_key_release e = (xfer_ok e, [KeyboardReport REPORT_ID_KEYBOARD 0 None])"

definition send_mouse_move :: "env \<Rightarrow> u8 \<Rightarrow> u8 \<Rightarrow> bool \<times> action list" where
  "send_mouse_move e x y =
     (if \<not> hid_ready e then (False, [])
      else (xfer_ok e, [MouseReport REPORT_ID_MOUSE 0x00 x y 0 0]))"

definition send_mouse_click :: "env \<Rightarrow> u8 \<Rightarrow> bool \<times> action list" where
  "send_mouse_click e buttons =
     (if \<not> hid_ready e then (False, [])
      else (xfer_ok e, [MouseReport REPORT_ID_MOUSE buttons 0 0 0 0]))"

definition send_mouse_release :: "env \<Rightarrow> bool \<times> action list" where
  "send_mouse_release e =
     (if \<not> hid_ready e then (False, [])
      else (xfer_ok e, [MouseReport REPORT_ID_MOUSE 0x00 0 0 0 0]))"

section \<open>Device callbacks (lines 141-157, 319-344)\<close>

definition tud_mount_cb :: "hid_state \<Rightarrow> hid_state" where
  "tud_mount_cb g = g\<lparr>blink_interval_ms := BLINK_MOUNTED\<rparr>"

definition tud_umount_cb :: "hid_state \<Rightarrow> hid_state" where
  "tud_umount_cb g = g\<lparr>blink_interval_ms := BLINK_NOT_MOUNTED\<rparr>"

definition tud_suspend_cb :: "bool \<Rightarrow> hid_state \<Rightarrow> hid_state" where
  "tud_suspend_cb remote_wakeup_en g = g\<lparr>blink_interval_ms := BLINK_SUSPENDED\<rparr>"

text \<open>The argument \<open>is_mounted\<close> is what \<open>tud_mounted()\<close> answers inside the callback.\<close>

definition tud_resume_cb :: "bool \<Rightarrow> hid_state \<Rightarrow> hid_state" where
  "tud_resume_cb is_mounted g =
     g\<lparr>blink_interval_ms := (if is_mounted then BLINK_MOUNTED else BLINK_NOT_MOUNTED)\<rparr>"

text \<open>
  \<open>buffer\<close> and \<open>bufsize\<close> are one list: the transport passes \<open>bufsize\<close> readable
  bytes, so \<open>bufsize < 1\<close> is the empty list and \<open>buffer[0]\<close> is its head.
\<close>

definition tud_hid_set_report_cb ::
    "u8 \<Rightarrow> u8 \<Rightarrow> hid_report_type_t \<Rightarrow> u8 list \<Rightarrow> hid_state \<Rightarrow> hid_state \<times> action list" where
  "tud_hid_set_report_cb instance report_id report_type buffer g =
     (if report_type = HID_REPORT_TYPE_OUTPUT then
        (if report_id = REPORT_ID_KEYBOARD then
           (case buffer of
              [] \<Rightarrow> (g, [])
            | kbd_leds # _ \<Rightarrow>
                if kbd_leds AND KEYBOARD_LED_CAPSLOCK \<noteq> 0
                then (g\<lparr>blink_interval_ms := 0\<rparr>, [LedWrite True])
                else (g\<lparr>blink_interval_ms := BLINK_MOUNTED\<rparr>, [LedWrite False]))
         else (g, []))
      else (g, []))"

section \<open>Blinking task (lines 349-364)\<close>

text \<open>The argument \<open>now\<close> is the reading of \<open>board_millis()\<close>.\<close>

definition led_blinking_task :: "u32 \<Rightarrow> hid_state \<Rightarrow> hid_state \<times> action list" where
  "led_blinking_task now g =
     (if blink_interval_ms g = 0 then (g, [])
      else if now - led_start_ms g < blink_interval_ms g then (g, [])
      else (g\<lparr>led_start_ms := led_start_ms g + blink_interval_ms g,
               led_state := \<not> led_state g\<rparr>,
            [LedWrite (led_state g)]))"

section \<open>The HID demo state machine (lines 184-294)\<close>

definition text_to_type :: string where
  "text_to_type = ''Hello World!''"

text \<open>
  The read \<open>text_to_type[i]\<close>: the characters of the literal, then its terminating NUL
  at index \<open>length\<close>; any other index is outside the buffer.
\<close>

definition text_read :: "int \<Rightarrow> fault + char" where
  "text_read i =
     (if 0 \<le> i \<and> i < int (length text_to_type) then Inr (text_to_type ! nat i)
      else if i = int (length text_to_type) then Inr (CHR 0x00)
      else Inl OutOfBoundsRead)"

definition char_code :: "char \<Rightarrow> int" where
  "char_code c = of_char c"

text \<open>
  Lines 263-276 of \<open>hid_task\<close>: \<open>key\<close> and \<open>modifier\<close> start at 0 and the chain of
  comparisons fills them in. The result is the pair (modifier, key). The sums are computed
  in \<open>int\<close> and stored in a \<open>uint8_t\<close>. \<open>char_code\<close> reads a character as a
  number from 0 to 255; where \<open>char\<close> is signed, the bytes from 128 on are negative,
  and they fail every comparison of the chain either way.
\<close>

definition key_for_char :: "char \<Rightarrow> u8 \<times> u8" where
  "key_for_char c =
     (if char_code (CHR ''a'') \<le> char_code c \<and> char_code c \<le> char_code (CHR ''z'')
      then (0, word_of_int (uint HID_KEY_A + (char_code c - char_code (CHR ''a''))))
      else if char_code (CHR ''A'') \<le> char_code c \<and> char_code c \<le> char_code (CHR ''Z'')
      then (KEYBOARD_MODIFIER_LEFTSHIFT,
            word_of_int (uint HID_KEY_A + (char_code c - char_code (CHR ''A''))))
      else if c = CHR '' '' then (0, HID_KEY_SPACE)
      else if c = CHR ''!'' then (KEYBOARD_MODIFIER_LEFTSHIFT, HID_KEY_1)
      else (0, 0))"

definition interval_ms :: u32 where
  "interval_ms = 10"

text \<open>The \<open>switch (app_state)\<close> of \<open>hid_task\<close> (lines 211-293).\<close>

definition hid_switch :: "env \<Rightarrow> hid_state \<Rightarrow> fault + hid_state \<times> action list" where
  "hid_switch e g =
     (case app_state g of
        STATE_IDLE \<Rightarrow>
          Inr (g\<lparr>state_start_ms := millis e, app_state := STATE_WAIT_INIT\<rparr>, [])
      | STATE_WAIT_INIT \<Rightarrow>
          Inr (if 2000 < millis e - state_start_ms g
               then g\<lparr>app_state := STATE_WAIT_BEFORE_TYPE\<rparr> else g, [])
      | STATE_MOUSE_UP \<Rightarrow>
          (case send_mouse_move e 0 (- 20) of
             (sent, out) \<Rightarrow> Inr (if sent then g\<lparr>app_state := STATE_MOUSE_DOWN\<rparr> else g, out))
      | STATE_MOUSE_DOWN \<Rightarrow>
          (case send_mouse_move e 0 20 of
             (sent, out) \<Rightarrow> Inr (if sent then g\<lparr>app_state := STATE_CLICK_PRESS\<rparr> else g, out))
      | STATE_CLICK_PRESS \<Rightarrow>
          (case send_mouse_click e MOUSE_BUTTON_LEFT of
             (sent, out) \<Rightarrow> Inr (if sent then g\<lparr>app_state := STATE_CLICK_RELEASE\<rparr> else g, out))
      | STATE_CLICK_RELEASE \<Rightarrow>
          (case send_mouse_release e of
             (sent, out) \<Rightarrow>
               Inr (if sent
                    then g\<lparr>state_start_ms := millis e, app_state := STATE_WAIT_BEFORE_TYPE\<rparr>
                    else g, out))
      | STATE_WAIT_BEFORE_TYPE \<Rightarrow>
          Inr (if 500 < millis e - state_start_ms g
               then g\<lparr>text_index := 0, app_state := STATE_TYPE_CHAR\<rparr> else g, [])
      | STATE_TYPE_CHAR \<Rightarrow>
          (case text_read (text_index g) of
             Inl f \<Rightarrow> Inl f
           | Inr c \<Rightarrow>
               if c = CHR 0x00 then Inr (g\<lparr>app_state := STATE_DONE\<rparr>, [])
               else
                 (case key_for_char c of
                    (modifier, key) \<Rightarrow>
                      (case send_key_press e modifier key of
                         (sent, out) \<Rightarrow>
                           Inr (if sent then g\<lparr>app_state := STATE_RELEASE_CHAR\<rparr> else g,
                                out))))
      | STATE_RELEASE_CHAR \<Rightarrow>
          (case send_key_release e of
             (sent, out) \<Rightarrow>
               Inr (if sent
                    then g\<lparr>text_index := text_index g + 1, app_state := STATE_TYPE_CHAR\<rparr>
                    else g, out))
      | STATE_DONE \<Rightarrow> Inr (g, []))"

text \<open>
  \<open>hid_task\<close> (lines 187-210): the 10 ms poll check on the static \<open>start_ms\<close>, the three
  guards, then the switch.
\<close>

definition hid_task :: "env \<Rightarrow> hid_state \<Rightarrow> fault + hid_state \<times> action list" where
  "hid_task e g =
     (if millis e - start_ms g < interval_ms then Inr (g, [])
      else
        (let g1 = g\<lparr>start_ms := start_ms g + interval_ms\<rparr> in
           if \<not> mounted e then Inr (g1\<lparr>app_state := STATE_IDLE\<rparr>, [])
           else if suspended e then Inr (g1, [RemoteWakeup])
           else if \<not> hid_ready e then Inr (g1, [])
           else hid_switch e g1))"

section \<open>The main loop and the stack's callbacks as a run\<close>

text \<open>
  Everything that can touch the statics of main.c: the two tasks the main loop calls
  (lines 128-133), and the callbacks the stack invokes from \<open>tud_task\<close>.
  \<open>tud_hid_report_complete_cb\<close> and \<open>tud_hid_get_report_cb\<close> read and write
  no static and call nothing, so they are not stimuli.
\<close>

datatype stimulus =
    HidTask env
  | LedTask u32
  | MountCb
  | UmountCb
  | SuspendCb bool
  | ResumeCb bool
  | SetReportCb u8 u8 hid_report_type_t "u8 list"

fun fire :: "stimulus \<Rightarrow> hid_state \<Rightarrow> fault + hid_state \<times> action list" where
  "fire (HidTask e) g = hid_task e g"
| "fire (LedTask now) g = Inr (led_blinking_task now g)"
| "fire MountCb g = Inr (tud_mount_cb g, [])"
| "fire UmountCb g = Inr (tud_umount_cb g, [])"
| "fire (SuspendCb en) g = Inr (tud_suspend_cb en g, [])"
| "fire (ResumeCb m) g = Inr (tud_resume_cb m g, [])"
| "fire (SetReportCb inst rid rt buf) g = Inr (tud_hid_set_report_cb inst rid rt buf g)"

fun exec :: "hid_state \<Rightarrow> stimulus list \<Rightarrow> fault + hid_state \<times> action list" where
  "exec g [] = Inr (g, [])"
| "exec g (s # ss) =
     (case fire s g of
        Inl f \<Rightarrow> Inl f
      | Inr (g1, out1) \<Rightarrow>
          (case exec g1 ss of
             Inl f \<Rightarrow> Inl f
           | Inr (g2, out2) \<Rightarrow> Inr (g2, out1 @ out2)))"

text \<open>A run of \<open>hid_task\<close> calls alone.\<close>

definition run :: "hid_state \<Rightarrow> env list \<Rightarrow> fault + hid_state \<times> action list" where
  "run g es = exec g (map HidTask es)"

section \<open>Vocabulary of the properties\<close>

subsection \<open>Ticks and schedules\<close>

text \<open>
  A call of \<open>hid_task\<close> on which the script can advance: the device is mounted and not
  suspended, the transport is ready and accepts the report it is handed.
\<close>

definition ready_tick :: "env \<Rightarrow> bool" where
  "ready_tick e = (mounted e \<and> \<not> suspended e \<and> hid_ready e \<and> xfer_ok e)"

text \<open>
  The transport takes the report it is handed whenever it has said it is ready. (What it
  would answer when not ready does not matter: \<open>hid_task\<close> hands it nothing then.)
\<close>

definition accepting :: "env \<Rightarrow> bool" where
  "accepting e = (if hid_ready e then xfer_ok e else True)"

text \<open>A readiness stall: the device is mounted and the transport is not ready.\<close>

definition stall_tick :: "env \<Rightarrow> bool" where
  "stall_tick e = (mounted e \<and> \<not> hid_ready e)"

text \<open>
  Every call of the list passes the 10 ms poll check, when the check's anchor
  \<open>start_ms\<close> is \<open>s\<close> before the first call: each such call moves the anchor by 10.
\<close>

fun polls :: "u32 \<Rightarrow> env list \<Rightarrow> bool" where
  "polls s [] = True"
| "polls s (e # es) = (\<not> millis e - s < interval_ms \<and> polls (s + interval_ms) es)"

text \<open>
  The calls of a list that pass the poll check, in order: the main loop calls
  \<open>hid_task\<close> far more often than every 10 ms, and the other calls return at once.
\<close>

fun passing :: "u32 \<Rightarrow> env list \<Rightarrow> env list" where
  "passing s [] = []"
| "passing s (e # es) =
     (if millis e - s < interval_ms then passing s es
      else e # passing (s + interval_ms) es)"

text \<open>
  The schedule of a main loop that runs freely on a mounted, ready device: the call
  number \<open>k\<close> of \<open>hid_task\<close> that passes the poll check reads the clock at \<open>10 * k\<close> ms.
  \<open>clock_ticks a b\<close> are the calls number \<open>a\<close> to \<open>b - 1\<close>.
\<close>

definition good_tick :: "u32 \<Rightarrow> env" where
  "good_tick t =
     \<lparr>millis = t, mounted = True, suspended = False, hid_ready = True, xfer_ok = True\<rparr>"

definition clock_ticks :: "nat \<Rightarrow> nat \<Rightarrow> env list" where
  "clock_ticks a b = map (\<lambda>k. good_tick (10 * of_nat k)) [a..<b]"

text \<open>
  The same clock with the transport not ready: the calls number \<open>a\<close> to \<open>b - 1\<close>
  of a mounted, not suspended device whose transport has a report in flight.
\<close>

definition stalled_ticks :: "nat \<Rightarrow> nat \<Rightarrow> env list" where
  "stalled_ticks a b =
     map (\<lambda>k. \<lparr>millis = 10 * of_nat k, mounted = True, suspended = False,
                hid_ready = False, xfer_ok = False\<rparr>) [a..<b]"

subsection \<open>The reports of the script\<close>

text \<open>
  The key-press report of a character, as \<open>send_key_press\<close> builds it from the pair of
  \<open>key_for_char\<close>, and the key-release report of \<open>send_key_release\<close>.
\<close>

definition press_report :: "char \<Rightarrow> action" where
  "press_report c =
     KeyboardReport REPORT_ID_KEYBOARD (fst (key_for_char c))
       (Some [snd (key_for_char c), 0, 0, 0, 0, 0])"

definition release_report :: action where
  "release_report = KeyboardReport REPORT_ID_KEYBOARD 0 None"

fun reports_for :: "string \<Rightarrow> action list" where
  "reports_for [] = []"
| "reports_for (c # cs) = press_report c # release_report # reports_for cs"

definition script_reports :: "action list" where
  "script_reports = reports_for text_to_type"

text \<open>
  How many reports of the script the sequencer has got through, read off its state: two
  per character before the cursor, and one more while the release of the current
  character is pending.
\<close>

definition script_pos :: "hid_state \<Rightarrow> nat" where
  "script_pos g =
     (case app_state g of
        STATE_TYPE_CHAR \<Rightarrow> 2 * nat (text_index g)
      | STATE_RELEASE_CHAR \<Rightarrow> 2 * nat (text_index g) + 1
      | STATE_DONE \<Rightarrow> 2 * nat (text_index g)
      | _ \<Rightarrow> 0)"

text \<open>
  The states of the main path of the script (Idle, the two waits, the typing loop, Done)
  with the cursor where the typing loop keeps it.
\<close>

definition on_script :: "hid_state \<Rightarrow> bool" where
  "on_script g =
     (case app_state g of
        STATE_IDLE \<Rightarrow> True
      | STATE_WAIT_INIT \<Rightarrow> True
      | STATE_WAIT_BEFORE_TYPE \<Rightarrow> True
      | STATE_TYPE_CHAR \<Rightarrow> 0 \<le> text_index g \<and> text_index g \<le> int (length text_to_type)
      | STATE_RELEASE_CHAR \<Rightarrow> 0 \<le> text_index g \<and> text_index g < int (length text_to_type)
      | STATE_DONE \<Rightarrow> text_index g = int (length text_to_type)
      | _ \<Rightarrow> False)"

definition typing :: "hid_state \<Rightarrow> bool" where
  "typing g =
     (on_script g \<and>
      (app_state g = STATE_TYPE_CHAR \<or> app_state g = STATE_RELEASE_CHAR \<or>
       app_state g = STATE_DONE))"

definition script_rank :: "hid_state \<Rightarrow> nat" where
  "script_rank g = script_pos g + (if app_state g = STATE_DONE then 1 else 0)"

text \<open>
  What a run shows of the sequencer: its state, cursor and state timer, and the HID
  reports handed to the transport.
\<close>

definition seq_view ::
    "fault + hid_state \<times> action list \<Rightarrow> fault + (app_state_t \<times> int \<times> u32) \<times> action list" where
  "seq_view r =
     (case r of
        Inl f \<Rightarrow> Inl f
      | Inr (g, out) \<Rightarrow>
          Inr ((app_state g, text_index g, state_start_ms g), filter is_hid_report out))"

subsection \<open>The cursor and the buffer\<close>

definition cursor_ok :: "hid_state \<Rightarrow> bool" where
  "cursor_ok g =
     (0 \<le> text_index g \<and> text_index g \<le> int (length text_to_type)
      \<and> (if app_state g = STATE_RELEASE_CHAR then text_index g < int (length text_to_type)
         else True))"

subsection \<open>Who writes the blink interval\<close>

text \<open>
  The value a stimulus writes to \<open>blink_interval_ms\<close>, if it writes one, and the value
  left by the last writer of a list of stimuli.
\<close>

fun interval_written :: "stimulus \<Rightarrow> u32 option" where
  "interval_written MountCb = Some BLINK_MOUNTED"
| "interval_written UmountCb = Some BLINK_NOT_MOUNTED"
| "interval_written (SuspendCb en) = Some BLINK_SUSPENDED"
| "interval_written (ResumeCb m) = Some (if m then BLINK_MOUNTED else BLINK_NOT_MOUNTED)"
| "interval_written (SetReportCb inst rid rt buf) =
     (if rt = HID_REPORT_TYPE_OUTPUT \<and> rid = REPORT_ID_KEYBOARD \<and> buf \<noteq> []
      then Some (if hd buf AND KEYBOARD_LED_CAPSLOCK \<noteq> 0 then 0 else BLINK_MOUNTED)
      else None)"
| "interval_written (HidTask e) = None"
| "interval_written (LedTask now) = None"

fun last_written :: "u32 \<Rightarrow> stimulus list \<Rightarrow> u32" where
  "last_written b [] = b"
| "last_written b (s # ss) =
     last_written (case interval_written s of None \<Rightarrow> b | Some b' \<Rightarrow> b') ss"

text \<open>The host's keyboard LED report with only the Capslock bit set.\<close>

definition caps_on :: stimulus where
  "caps_on = SetReportCb 0 REPORT_ID_KEYBOARD HID_REPORT_TYPE_OUTPUT [KEYBOARD_LED_CAPSLOCK]"

section \<open>Runs\<close>

lemma run_Nil: "run g [] = Inr (g, [])"
  by (simp add: run_def)

lemma run_Cons:
  "run g (e # es) =
     (case hid_task e g of
        Inl f \<Rightarrow> Inl f
      | Inr (g1, out1) \<Rightarrow>
          (case run g1 es of
             Inl f \<Rightarrow> Inl f
           | Inr (g2, out2) \<Rightarrow> Inr (g2, out1 @ out2)))"
  by (simp add: run_def split: sum.splits prod.splits)

lemma run_append:
  "run g (xs @ ys) =
     (case run g xs of
        Inl f \<Rightarrow> Inl f
      | Inr (g1, out1) \<Rightarrow>
          (case run g1 ys of
             Inl f \<Rightarrow> Inl f
           | Inr (g2, out2) \<Rightarrow> Inr (g2, out1 @ out2)))"
proof (induction xs arbitrary: g)
  case Nil
  show ?case by (simp add: run_Nil split: sum.splits prod.splits)
next
  case (Cons e xs)
  show ?case
    by (simp add: run_Cons Cons.IH split: sum.splits prod.splits)
qed

lemma polls_append:
  "polls s (xs @ ys) = (polls s xs \<and> polls (s + interval_ms * of_nat (length xs)) ys)"
  by (induction xs arbitrary: s) (simp_all add: algebra_simps)

section \<open>The poll anchor is private to the poll check\<close>

lemma hid_switch_start_ms:
  "hid_switch e (g\<lparr>start_ms := s\<rparr>) =
     (case hid_switch e g of
        Inl f \<Rightarrow> Inl f
      | Inr (g1, out) \<Rightarrow> Inr (g1\<lparr>start_ms := s\<rparr>, out))"
  by (cases "app_state g")
    (simp_all add: hid_switch_def split: sum.splits prod.splits)

lemma hid_task_start_ms:
  assumes "\<not> millis e - start_ms g < interval_ms" and "\<not> millis e - s < interval_ms"
  shows "hid_task e (g\<lparr>start_ms := s\<rparr>) =
     (case hid_task e g of
        Inl f \<Rightarrow> Inl f
      | Inr (g1, out) \<Rightarrow> Inr (g1\<lparr>start_ms := s + interval_ms\<rparr>, out))"
proof -
  have "hid_switch e (g\<lparr>start_ms := s + interval_ms\<rparr>) =
      (case hid_switch e (g\<lparr>start_ms := start_ms g + interval_ms\<rparr>) of
         Inl f \<Rightarrow> Inl f
       | Inr (g1, out) \<Rightarrow> Inr (g1\<lparr>start_ms := s + interval_ms\<rparr>, out))"
    using hid_switch_start_ms [where e = e and g = "g\<lparr>start_ms := start_ms g + interval_ms\<rparr>"
        and s = "s + interval_ms"]
    by simp
  with assms show ?thesis
    by (simp add: hid_task_def Let_def)
qed

lemma hid_task_open_start_ms:
  assumes "\<not> millis e - start_ms g < interval_ms" and "hid_task e g = Inr (g1, out)"
  shows "start_ms g1 = start_ms g + interval_ms"
proof -
  from hid_switch_start_ms [where e = e and g = g and s = "start_ms g + interval_ms"]
  have "hid_switch e (g\<lparr>start_ms := start_ms g + interval_ms\<rparr>) = Inr (g1, out) \<Longrightarrow>
      start_ms g1 = start_ms g + interval_ms"
    by (auto split: sum.splits prod.splits)
  with assms show ?thesis
    by (auto simp add: hid_task_def Let_def split: if_splits)
qed

lemma run_start_ms:
  "polls (start_ms g) es \<Longrightarrow> run g es = Inr (g', out) \<Longrightarrow>
     start_ms g' = start_ms g + interval_ms * of_nat (length es)"
proof (induction es arbitrary: g g' out)
  case Nil
  then show ?case by (simp add: run_Nil)
next
  case (Cons e es)
  from Cons.prems(1) have gate: "\<not> millis e - start_ms g < interval_ms"
    and rest: "polls (start_ms g + interval_ms) es"
    by simp_all
  from Cons.prems(2) obtain g1 out1 out2 where
    s: "hid_task e g = Inr (g1, out1)" and r: "run g1 es = Inr (g', out2)"
    by (auto simp add: run_Cons split: sum.splits prod.splits)
  from hid_task_open_start_ms [OF gate s] have g1: "start_ms g1 = start_ms g + interval_ms" .
  with rest have "polls (start_ms g1) es" by simp
  from Cons.IH [OF this r] g1 show ?case
    by (simp add: algebra_simps)
qed

lemma polls_passing: "polls s (passing s es)"
  by (induction es arbitrary: s) simp_all

lemma run_passing: "run g (passing (start_ms g) es) = run g es"
proof (induction es arbitrary: g)
  case Nil
  show ?case by simp
next
  case (Cons e es)
  show ?case
  proof (cases "millis e - start_ms g < interval_ms")
    case True
    then have "hid_task e g = Inr (g, [])"
      by (simp add: hid_task_def)
    with True Cons.IH [of g] show ?thesis
      by (simp add: run_Cons split: sum.splits prod.splits)
  next
    case False
    show ?thesis
    proof (cases "hid_task e g")
      case (Inl f)
      with False show ?thesis by (simp add: run_Cons)
    next
      case (Inr p)
      then obtain g1 out1 where r: "hid_task e g = Inr (g1, out1)"
        by (cases p) simp
      from hid_task_open_start_ms [OF False r] Cons.IH [of g1]
      have "run g1 (passing (start_ms g + interval_ms) es) = run g1 es"
        by simp
      with False r show ?thesis
        by (simp add: run_Cons)
    qed
  qed
qed

section \<open>What \<open>hid_task\<close> hands out\<close>

lemma hid_switch_only_reports:
  "hid_switch e g = Inr (g', out) \<Longrightarrow> filter is_hid_report out = out"
  by (cases "app_state g")
    (auto simp add: hid_switch_def send_mouse_move_def send_mouse_click_def
      send_mouse_release_def send_key_press_def send_keyboard_report_def
      send_key_release_def split: if_splits prod.splits sum.splits)

lemma hid_task_only_reports:
  "hid_task e g = Inr (g', out) \<Longrightarrow> \<not> suspended e \<Longrightarrow> filter is_hid_report out = out"
  by (auto simp add: hid_task_def Let_def split: if_splits dest: hid_switch_only_reports)

lemma run_only_reports:
  "run g es = Inr (g', out) \<Longrightarrow> \<forall>e \<in> set es. \<not> suspended e \<Longrightarrow>
     filter is_hid_report out = out"
proof (induction es arbitrary: g g' out)
  case Nil
  then show ?case by (simp add: run_Nil)
next
  case (Cons e es)
  from Cons.prems(1) obtain g1 out1 out2 where
    s: "hid_task e g = Inr (g1, out1)" and r: "run g1 es = Inr (g', out2)"
    and o: "out = out1 @ out2"
    by (auto simp add: run_Cons split: sum.splits prod.splits)
  from hid_task_only_reports [OF s] Cons.prems(2) have "filter is_hid_report out1 = out1"
    by simp
  moreover from Cons.IH [OF r] Cons.prems(2) have "filter is_hid_report out2 = out2"
    by simp
  ultimately show ?case using o by simp
qed

section \<open>The two waits\<close>

lemma idle_tick:
  assumes "app_state g = STATE_IDLE"
    and "\<not> millis e - start_ms g < interval_ms" "mounted e" "\<not> suspended e" "hid_ready e"
  shows "hid_task e g =
     Inr (g\<lparr>start_ms := start_ms g + interval_ms, state_start_ms := millis e,
            app_state := STATE_WAIT_INIT\<rparr>, [])"
  using assms by (simp add: hid_task_def hid_switch_def Let_def)

lemma wait_init_tick:
  assumes "app_state g = STATE_WAIT_INIT" and "mounted e"
    and "unat (millis e - state_start_ms g) \<le> 2000"
  shows "\<exists>g' out. hid_task e g = Inr (g', out) \<and> app_state g' = STATE_WAIT_INIT
    \<and> state_start_ms g' = state_start_ms g \<and> filter is_hid_report out = []"
proof -
  have "\<not> 2000 < millis e - state_start_ms g"
    using assms(3) by (simp add: word_less_nat_alt)
  then show ?thesis
    using assms(1,2) by (simp add: hid_task_def hid_switch_def Let_def)
qed

lemma wait_init_run:
  assumes "app_state g = STATE_WAIT_INIT"
    and "\<forall>e \<in> set es. mounted e \<and> unat (millis e - state_start_ms g) \<le> 2000"
  shows "\<exists>g' out. run g es = Inr (g', out) \<and> app_state g' = STATE_WAIT_INIT
    \<and> state_start_ms g' = state_start_ms g \<and> filter is_hid_report out = []"
  using assms
proof (induction es arbitrary: g)
  case Nil
  then show ?case by (simp add: run_Nil)
next
  case (Cons e es)
  from Cons.prems obtain g1 out1 where
    s: "hid_task e g = Inr (g1, out1)" "app_state g1 = STATE_WAIT_INIT"
       "state_start_ms g1 = state_start_ms g" "filter is_hid_report out1 = []"
    using wait_init_tick [of g e] by auto
  from Cons.prems s(3) have "\<forall>e \<in> set es. mounted e \<and> unat (millis e - state_start_ms g1) \<le> 2000"
    by simp
  from Cons.IH [OF s(2) this] obtain g2 out2 where
    r: "run g1 es = Inr (g2, out2)" "app_state g2 = STATE_WAIT_INIT"
       "state_start_ms g2 = state_start_ms g1" "filter is_hid_report out2 = []"
    by blast
  show ?case
    using s r by (simp add: run_Cons)
qed

lemma wait_init_fire:
  assumes "app_state g = STATE_WAIT_INIT" and "ready_tick e"
    and "\<not> millis e - start_ms g < interval_ms"
    and "2000 < unat (millis e - state_start_ms g)"
  shows "hid_task e g =
    Inr (g\<lparr>start_ms := start_ms g + interval_ms, app_state := STATE_WAIT_BEFORE_TYPE\<rparr>, [])"
proof -
  from assms(4) have "2000 < millis e - state_start_ms g"
    by (simp add: word_less_nat_alt)
  with assms(1-3) show ?thesis
    by (simp add: hid_task_def hid_switch_def Let_def ready_tick_def)
qed

lemma wait_before_type_fire:
  assumes "app_state g = STATE_WAIT_BEFORE_TYPE" and "ready_tick e"
    and "\<not> millis e - start_ms g < interval_ms"
    and "500 < unat (millis e - state_start_ms g)"
  shows "hid_task e g =
    Inr (g\<lparr>start_ms := start_ms g + interval_ms, text_index := 0,
           app_state := STATE_TYPE_CHAR\<rparr>, [])"
proof -
  from assms(4) have "500 < millis e - state_start_ms g"
    by (simp add: word_less_nat_alt)
  with assms(1-3) show ?thesis
    by (simp add: hid_task_def hid_switch_def Let_def ready_tick_def)
qed

section \<open>The typing loop\<close>

lemma length_reports_for: "length (reports_for cs) = 2 * length cs"
  by (induction cs) simp_all

lemma drop_reports_for:
  "i < length cs \<Longrightarrow>
     drop (2 * i) (reports_for cs) =
       press_report (cs ! i) # release_report # drop (2 * Suc i) (reports_for cs)"
proof (induction cs arbitrary: i)
  case Nil
  then show ?case by simp
next
  case (Cons c cs)
  show ?case
  proof (cases i)
    case 0
    then show ?thesis by simp
  next
    case (Suc j)
    with Cons.prems have "j < length cs" by simp
    from Cons.IH [OF this] Suc show ?thesis by simp
  qed
qed

lemma press_slice:
  assumes "i < length cs"
  shows "take (Suc (2 * i) - 2 * i) (drop (2 * i) (reports_for cs)) = [press_report (cs ! i)]"
  using drop_reports_for [OF assms] by simp

lemma release_slice:
  assumes "i < length cs"
  shows "take (2 * Suc i - Suc (2 * i)) (drop (Suc (2 * i)) (reports_for cs)) = [release_report]"
proof -
  have "drop (Suc (2 * i)) (reports_for cs) = drop 1 (drop (2 * i) (reports_for cs))"
    by simp
  also have "\<dots> = release_report # drop (2 * Suc i) (reports_for cs)"
    using drop_reports_for [OF assms] by simp
  finally show ?thesis by simp
qed

lemma slice_append:
  assumes "a \<le> b" and "b \<le> c"
  shows "take (b - a) (drop a xs) @ take (c - b) (drop b xs) = take (c - a) (drop a xs)"
proof -
  have "drop b xs = drop (b - a) (drop a xs)"
    using assms(1) by simp
  moreover have "c - a = (b - a) + (c - b)"
    using assms by simp
  ultimately show ?thesis
    by (simp only: take_add)
qed

lemma length_script_reports: "length script_reports = 24"
  by (simp add: script_reports_def length_reports_for text_to_type_def)

lemma text_no_nul: "i < length text_to_type \<Longrightarrow> text_to_type ! i \<noteq> CHR 0x00"
proof -
  have "CHR 0x00 \<notin> set text_to_type"
    by (simp add: text_to_type_def)
  then show "i < length text_to_type \<Longrightarrow> text_to_type ! i \<noteq> CHR 0x00"
    using nth_mem by metis
qed

lemma switch_type_char:
  assumes "app_state g = STATE_TYPE_CHAR" and "0 \<le> text_index g"
    and "text_index g < int (length text_to_type)" and "hid_ready e"
  shows "hid_switch e g =
    Inr (if xfer_ok e then g\<lparr>app_state := STATE_RELEASE_CHAR\<rparr> else g,
         [press_report (text_to_type ! nat (text_index g))])"
proof -
  from assms(2,3) have "nat (text_index g) < length text_to_type" by simp
  from text_no_nul [OF this] assms show ?thesis
    by (simp add: hid_switch_def text_read_def press_report_def send_key_press_def
        send_keyboard_report_def split: prod.splits)
qed

lemma switch_type_end:
  assumes "app_state g = STATE_TYPE_CHAR" and "text_index g = int (length text_to_type)"
  shows "hid_switch e g = Inr (g\<lparr>app_state := STATE_DONE\<rparr>, [])"
  using assms by (simp add: hid_switch_def text_read_def)

lemma switch_release_char:
  assumes "app_state g = STATE_RELEASE_CHAR"
  shows "hid_switch e g =
    Inr (if xfer_ok e then g\<lparr>text_index := text_index g + 1, app_state := STATE_TYPE_CHAR\<rparr>
         else g, [release_report])"
  using assms by (simp add: hid_switch_def send_key_release_def release_report_def)

lemma on_script_start_ms [simp]: "on_script (g\<lparr>start_ms := s\<rparr>) = on_script g"
  by (simp add: on_script_def split: app_state_t.splits)

lemma script_pos_start_ms [simp]: "script_pos (g\<lparr>start_ms := s\<rparr>) = script_pos g"
  by (simp add: script_pos_def split: app_state_t.splits)

lemma script_switch:
  assumes "on_script g" and "hid_ready e" and "xfer_ok e"
  shows "\<exists>g' out. hid_switch e g = Inr (g', out) \<and> on_script g'
    \<and> script_pos g \<le> script_pos g'
    \<and> out = take (script_pos g' - script_pos g) (drop (script_pos g) script_reports)"
proof (cases "app_state g")
  case STATE_TYPE_CHAR
  show ?thesis
  proof (cases "text_index g = int (length text_to_type)")
    case True
    with STATE_TYPE_CHAR switch_type_end [of g e] show ?thesis
      by (simp add: on_script_def script_pos_def)
  next
    case False
    with STATE_TYPE_CHAR assms(1)
    have b: "0 \<le> text_index g" "text_index g < int (length text_to_type)"
      by (simp_all add: on_script_def)
    then have i: "nat (text_index g) < length text_to_type" by simp
    from switch_type_char [OF STATE_TYPE_CHAR b assms(2)] assms(3)
    have "hid_switch e g =
        Inr (g\<lparr>app_state := STATE_RELEASE_CHAR\<rparr>,
             [press_report (text_to_type ! nat (text_index g))])"
      by simp
    with STATE_TYPE_CHAR b press_slice [OF i] show ?thesis
      by (simp add: on_script_def script_pos_def script_reports_def)
  qed
next
  case STATE_RELEASE_CHAR
  with assms(1)
  have b: "0 \<le> text_index g" "text_index g < int (length text_to_type)"
    by (simp_all add: on_script_def)
  then have i: "nat (text_index g) < length text_to_type" by simp
  from b have n: "nat (text_index g + 1) = Suc (nat (text_index g))" by simp
  from switch_release_char [OF STATE_RELEASE_CHAR, of e] assms(3)
  have "hid_switch e g =
      Inr (g\<lparr>text_index := text_index g + 1, app_state := STATE_TYPE_CHAR\<rparr>,
           [release_report])"
    by simp
  with STATE_RELEASE_CHAR b n release_slice [OF i] show ?thesis
    by (simp add: on_script_def script_pos_def script_reports_def)
qed (use assms(1) in \<open>simp_all add: hid_switch_def on_script_def script_pos_def\<close>)

lemma script_task:
  assumes "on_script g" and "mounted e" and "accepting e"
  shows "\<exists>g' out. hid_task e g = Inr (g', out) \<and> on_script g'
    \<and> script_pos g \<le> script_pos g'
    \<and> filter is_hid_report out =
        take (script_pos g' - script_pos g) (drop (script_pos g) script_reports)"
proof (cases "\<not> millis e - start_ms g < interval_ms \<and> \<not> suspended e \<and> hid_ready e")
  case True
  let ?g1 = "g\<lparr>start_ms := start_ms g + interval_ms\<rparr>"
  from assms(1) have "on_script ?g1" by simp
  moreover from True have "hid_ready e" by simp
  moreover from this assms(3) have "xfer_ok e" by (simp add: accepting_def)
  ultimately obtain g' out where
    sw: "hid_switch e ?g1 = Inr (g', out)" "on_script g'" "script_pos ?g1 \<le> script_pos g'"
      "out = take (script_pos g' - script_pos ?g1) (drop (script_pos ?g1) script_reports)"
    using script_switch [of ?g1 e] by blast
  from hid_switch_only_reports [OF sw(1)] have "filter is_hid_report out = out" .
  with sw True assms(2) show ?thesis
    by (simp add: hid_task_def Let_def)
next
  case False
  with assms show ?thesis
    by (auto simp add: hid_task_def Let_def)
qed

lemma script_run:
  assumes "on_script g" and "\<forall>e \<in> set es. mounted e \<and> accepting e"
  shows "\<exists>g' out. run g es = Inr (g', out) \<and> on_script g'
    \<and> script_pos g \<le> script_pos g'
    \<and> filter is_hid_report out =
        take (script_pos g' - script_pos g) (drop (script_pos g) script_reports)"
  using assms
proof (induction es arbitrary: g)
  case Nil
  then show ?case by (simp add: run_Nil)
next
  case (Cons e es)
  from Cons.prems have "mounted e" "accepting e" by simp_all
  from script_task [OF Cons.prems(1) this] obtain g1 out1 where
    s: "hid_task e g = Inr (g1, out1)" "on_script g1" "script_pos g \<le> script_pos g1"
      "filter is_hid_report out1 =
         take (script_pos g1 - script_pos g) (drop (script_pos g) script_reports)"
    by blast
  from Cons.prems have "\<forall>e \<in> set es. mounted e \<and> accepting e" by simp
  from Cons.IH [OF s(2) this] obtain g2 out2 where
    r: "run g1 es = Inr (g2, out2)" "on_script g2" "script_pos g1 \<le> script_pos g2"
      "filter is_hid_report out2 =
         take (script_pos g2 - script_pos g1) (drop (script_pos g1) script_reports)"
    by blast
  have "filter is_hid_report (out1 @ out2) =
      take (script_pos g2 - script_pos g) (drop (script_pos g) script_reports)"
    using s(4) r(4) slice_append [OF s(3) r(3)] by simp
  with s(1,3) r(1,2,3) show ?case
    by (simp add: run_Cons)
qed

lemma switch_typing_states:
  assumes "app_state g = STATE_TYPE_CHAR \<or> app_state g = STATE_RELEASE_CHAR \<or>
      app_state g = STATE_DONE"
    and "hid_switch e g = Inr (g', out)"
  shows "app_state g' = STATE_TYPE_CHAR \<or> app_state g' = STATE_RELEASE_CHAR \<or>
      app_state g' = STATE_DONE"
proof (cases "app_state g")
  case STATE_TYPE_CHAR
  with assms(2) show ?thesis
    by (auto simp add: hid_switch_def split: if_splits sum.splits prod.splits)
next
  case STATE_RELEASE_CHAR
  with assms(2) show ?thesis
    by (auto simp add: hid_switch_def split: if_splits prod.splits)
next
  case STATE_DONE
  with assms(2) show ?thesis
    by (simp add: hid_switch_def)
qed (use assms(1) in simp_all)

lemma typing_states_task:
  assumes "app_state g = STATE_TYPE_CHAR \<or> app_state g = STATE_RELEASE_CHAR \<or>
      app_state g = STATE_DONE"
    and "mounted e" and "hid_task e g = Inr (g', out)"
  shows "app_state g' = STATE_TYPE_CHAR \<or> app_state g' = STATE_RELEASE_CHAR \<or>
      app_state g' = STATE_DONE"
proof (cases "\<not> millis e - start_ms g < interval_ms \<and> \<not> suspended e \<and> hid_ready e")
  case True
  with assms(2,3) have "hid_switch e (g\<lparr>start_ms := start_ms g + interval_ms\<rparr>) = Inr (g', out)"
    by (simp add: hid_task_def Let_def)
  from switch_typing_states [OF _ this] assms(1) show ?thesis by simp
next
  case False
  with assms show ?thesis
    by (auto simp add: hid_task_def Let_def split: if_splits)
qed

lemma typing_states_run:
  assumes "app_state g = STATE_TYPE_CHAR \<or> app_state g = STATE_RELEASE_CHAR \<or>
      app_state g = STATE_DONE"
    and "\<forall>e \<in> set es. mounted e" and "run g es = Inr (g', out)"
  shows "app_state g' = STATE_TYPE_CHAR \<or> app_state g' = STATE_RELEASE_CHAR \<or>
      app_state g' = STATE_DONE"
  using assms
proof (induction es arbitrary: g out)
  case Nil
  then show ?case by (simp add: run_Nil)
next
  case (Cons e es)
  from Cons.prems(3) obtain g1 out1 out2 where
    s: "hid_task e g = Inr (g1, out1)" and r: "run g1 es = Inr (g', out2)"
    by (auto simp add: run_Cons split: sum.splits prod.splits)
  from Cons.prems(2) have m: "mounted e" and ms: "\<forall>e \<in> set es. mounted e" by simp_all
  from typing_states_task [OF Cons.prems(1) m s] Cons.IH [OF _ ms r] show ?case
    by blast
qed

lemma typing_script_run:
  assumes "typing g" and "\<forall>e \<in> set es. mounted e \<and> accepting e"
  shows "\<exists>g' out. run g es = Inr (g', out) \<and> typing g'
    \<and> script_pos g \<le> script_pos g'
    \<and> filter is_hid_report out =
        take (script_pos g' - script_pos g) (drop (script_pos g) script_reports)"
proof -
  from assms(1) have o: "on_script g"
    and st: "app_state g = STATE_TYPE_CHAR \<or> app_state g = STATE_RELEASE_CHAR \<or>
      app_state g = STATE_DONE"
    by (simp_all add: typing_def)
  from script_run [OF o assms(2)] obtain g' out where
    r: "run g es = Inr (g', out)" "on_script g'" "script_pos g \<le> script_pos g'"
      "filter is_hid_report out =
         take (script_pos g' - script_pos g) (drop (script_pos g) script_reports)"
    by blast
  from assms(2) have "\<forall>e \<in> set es. mounted e" by simp
  from typing_states_run [OF st this r(1)] r(2) have "typing g'"
    by (simp add: typing_def)
  with r show ?thesis by simp
qed

lemma done_pos:
  "on_script g \<Longrightarrow> app_state g = STATE_DONE \<Longrightarrow> script_pos g = 24"
  by (simp add: on_script_def script_pos_def text_to_type_def)

lemma done_tick:
  assumes "app_state g = STATE_DONE" and "mounted e"
  shows "\<exists>g' out. hid_task e g = Inr (g', out) \<and> app_state g' = STATE_DONE
    \<and> text_index g' = text_index g \<and> filter is_hid_report out = []"
  using assms by (simp add: hid_task_def hid_switch_def Let_def)

lemma done_run:
  assumes "app_state g = STATE_DONE" and "\<forall>e \<in> set es. mounted e"
  shows "\<exists>g' out. run g es = Inr (g', out) \<and> app_state g' = STATE_DONE
    \<and> text_index g' = text_index g \<and> filter is_hid_report out = []"
  using assms
proof (induction es arbitrary: g)
  case Nil
  then show ?case by (simp add: run_Nil)
next
  case (Cons e es)
  from Cons.prems have "mounted e" by simp
  from done_tick [OF Cons.prems(1) this] obtain g1 out1 where
    s: "hid_task e g = Inr (g1, out1)" "app_state g1 = STATE_DONE"
      "text_index g1 = text_index g" "filter is_hid_report out1 = []"
    by blast
  from Cons.prems have "\<forall>e \<in> set es. mounted e" by simp
  from Cons.IH [OF s(2) this] obtain g2 out2 where
    r: "run g1 es = Inr (g2, out2)" "app_state g2 = STATE_DONE"
      "text_index g2 = text_index g1" "filter is_hid_report out2 = []"
    by blast
  from s r show ?case by (simp add: run_Cons)
qed

section \<open>Progress of the typing loop\<close>

lemma typing_tick:
  assumes "typing g" and "ready_tick e" and "\<not> millis e - start_ms g < interval_ms"
  shows "\<exists>g' out. hid_task e g = Inr (g', out) \<and> typing g'
    \<and> script_rank g' = min 25 (script_rank g + 1)"
proof -
  let ?g1 = "g\<lparr>start_ms := start_ms g + interval_ms\<rparr>"
  from assms(2) have e: "mounted e" "\<not> suspended e" "hid_ready e" "xfer_ok e"
    by (simp_all add: ready_tick_def)
  with assms(3) have t: "hid_task e g = hid_switch e ?g1"
    by (simp add: hid_task_def Let_def)
  from assms(1) consider
      (type_end) "app_state g = STATE_TYPE_CHAR" "text_index g = int (length text_to_type)"
    | (type_char) "app_state g = STATE_TYPE_CHAR" "0 \<le> text_index g"
        "text_index g < int (length text_to_type)"
    | (release) "app_state g = STATE_RELEASE_CHAR" "0 \<le> text_index g"
        "text_index g < int (length text_to_type)"
    | (finished) "app_state g = STATE_DONE" "text_index g = int (length text_to_type)"
    by (cases "text_index g = int (length text_to_type)")
      (auto simp add: typing_def on_script_def)
  then show ?thesis
  proof cases
    case type_end
    with switch_type_end [of ?g1 e] t show ?thesis
      by (simp add: typing_def on_script_def script_rank_def script_pos_def text_to_type_def)
  next
    case type_char
    with switch_type_char [of ?g1 e] t e show ?thesis
      by (simp add: typing_def on_script_def script_rank_def script_pos_def text_to_type_def)
  next
    case release
    then have "nat (text_index g + 1) = Suc (nat (text_index g))" by simp
    with release switch_release_char [of ?g1 e] t e show ?thesis
      by (simp add: typing_def on_script_def script_rank_def script_pos_def text_to_type_def)
  next
    case finished
    with t show ?thesis
      by (simp add: hid_switch_def typing_def on_script_def script_rank_def script_pos_def
          text_to_type_def)
  qed
qed

lemma typing_run:
  assumes "typing g" and "\<forall>e \<in> set es. ready_tick e" and "polls (start_ms g) es"
  shows "\<exists>g' out. run g es = Inr (g', out) \<and> typing g'
    \<and> script_rank g' = min 25 (script_rank g + length es)"
  using assms
proof (induction es arbitrary: g)
  case Nil
  then show ?case
    by (auto simp add: run_Nil typing_def on_script_def script_rank_def script_pos_def
        text_to_type_def)
next
  case (Cons e es)
  from Cons.prems have e: "ready_tick e" "\<not> millis e - start_ms g < interval_ms"
    and rest: "polls (start_ms g + interval_ms) es" "\<forall>e \<in> set es. ready_tick e"
    by simp_all
  from typing_tick [OF Cons.prems(1) e] obtain g1 out1 where
    s: "hid_task e g = Inr (g1, out1)" "typing g1"
      "script_rank g1 = min 25 (script_rank g + 1)"
    by blast
  from hid_task_open_start_ms [OF e(2) s(1)] rest(1) have "polls (start_ms g1) es" by simp
  from Cons.IH [OF s(2) rest(2) this] obtain g2 out2 where
    r: "run g1 es = Inr (g2, out2)" "typing g2"
      "script_rank g2 = min 25 (script_rank g1 + length es)"
    by blast
  from s r show ?case
    by (simp add: run_Cons)
qed

lemma rank_done:
  assumes "typing g" and "script_rank g = 25"
  shows "app_state g = STATE_DONE"
  using assms
  by (auto simp add: typing_def on_script_def script_rank_def script_pos_def text_to_type_def
      split: if_splits)

lemma typing_completes:
  assumes "app_state g = STATE_TYPE_CHAR" and "text_index g = 0"
    and "\<forall>e \<in> set ts. ready_tick e" and "polls (start_ms g) ts" and "25 \<le> length ts"
  shows "\<exists>g'. run g ts = Inr (g', script_reports) \<and> app_state g' = STATE_DONE"
proof -
  from assms(1,2) have ty: "typing g" and rk: "script_rank g = 0" and ps: "script_pos g = 0"
    by (simp_all add: typing_def on_script_def script_rank_def script_pos_def)
  from typing_run [OF ty assms(3,4)] rk assms(5) obtain g' out where
    r: "run g ts = Inr (g', out)" "typing g'" "script_rank g' = 25"
    by auto
  from rank_done [OF r(2,3)] have d: "app_state g' = STATE_DONE" .
  from assms(3) have m: "\<forall>e \<in> set ts. mounted e \<and> accepting e"
    and ns: "\<forall>e \<in> set ts. \<not> suspended e"
    by (simp_all add: ready_tick_def accepting_def)
  from ty have "on_script g" by (simp add: typing_def)
  from script_run [OF this m] r(1) obtain
    o: "on_script g'" "filter is_hid_report out =
        take (script_pos g' - script_pos g) (drop (script_pos g) script_reports)"
    by auto
  from done_pos [OF o(1) d] o(2) ps have "filter is_hid_report out = script_reports"
    by (simp add: length_script_reports)
  with run_only_reports [OF r(1) ns] have "out = script_reports" by simp
  with r(1) d show ?thesis by simp
qed

lemma script_completes:
  assumes idle: "app_state g = STATE_IDLE"
    and ready: "\<forall>e \<in> set (e0 # ws @ e1 # e2 # ts). ready_tick e"
    and gate: "polls (start_ms g) (e0 # ws @ e1 # e2 # ts)"
    and early: "\<forall>w \<in> set ws. unat (millis w - millis e0) \<le> 2000"
    and late: "2000 < unat (millis e1 - millis e0)"
    and later: "500 < unat (millis e2 - millis e0)"
    and enough: "25 \<le> length ts"
  shows "\<exists>g'. run g (e0 # ws @ e1 # e2 # ts) = Inr (g', script_reports)
    \<and> app_state g' = STATE_DONE"
proof -
  let ?s0 = "start_ms g + interval_ms"
  let ?g0 = "g\<lparr>start_ms := ?s0, state_start_ms := millis e0, app_state := STATE_WAIT_INIT\<rparr>"
  from gate have gate0: "\<not> millis e0 - start_ms g < interval_ms"
    and gate_ws: "polls ?s0 ws"
    and gate_rest: "polls (?s0 + interval_ms * of_nat (length ws)) (e1 # e2 # ts)"
    by (simp_all add: polls_append)
  from ready have r0: "ready_tick e0" and r1: "ready_tick e1" and r2: "ready_tick e2"
    and rws: "\<forall>e \<in> set ws. ready_tick e" and rts: "\<forall>e \<in> set ts. ready_tick e"
    by simp_all
  from r0 have "mounted e0" "\<not> suspended e0" "hid_ready e0"
    by (simp_all add: ready_tick_def)
  from idle_tick [OF idle gate0 this] have t0: "hid_task e0 g = Inr (?g0, [])" .
  have "\<forall>e \<in> set ws. mounted e \<and> unat (millis e - state_start_ms ?g0) \<le> 2000"
    using rws early by (simp add: ready_tick_def)
  from wait_init_run [of ?g0 ws, OF _ this] obtain g1 out1 where
    w: "run ?g0 ws = Inr (g1, out1)" "app_state g1 = STATE_WAIT_INIT"
      "state_start_ms g1 = millis e0" "filter is_hid_report out1 = []"
    by auto
  from rws have "\<forall>e \<in> set ws. \<not> suspended e" by (simp add: ready_tick_def)
  from run_only_reports [OF w(1) this] w(4) have out1: "out1 = []" by simp
  from run_start_ms [of ?g0 ws, OF _ w(1)] gate_ws
  have s1: "start_ms g1 = ?s0 + interval_ms * of_nat (length ws)" by simp
  with gate_rest have gate1: "\<not> millis e1 - start_ms g1 < interval_ms"
    and gate2: "\<not> millis e2 - (start_ms g1 + interval_ms) < interval_ms"
    and gate_ts: "polls (start_ms g1 + interval_ms + interval_ms) ts"
    by simp_all
  let ?g2 = "g1\<lparr>start_ms := start_ms g1 + interval_ms, app_state := STATE_WAIT_BEFORE_TYPE\<rparr>"
  from wait_init_fire [OF w(2) r1 gate1] late w(3)
  have t1: "hid_task e1 g1 = Inr (?g2, [])" by simp
  let ?g3 = "?g2\<lparr>start_ms := start_ms ?g2 + interval_ms, text_index := 0,
      app_state := STATE_TYPE_CHAR\<rparr>"
  from wait_before_type_fire [of ?g2 e2] r2 gate2 later w(3)
  have t2: "hid_task e2 ?g2 = Inr (?g3, [])" by simp
  from typing_completes [of ?g3 ts] rts gate_ts enough obtain g' where
    t: "run ?g3 ts = Inr (g', script_reports)" "app_state g' = STATE_DONE"
    by auto
  have "run g1 (e1 # e2 # ts) = Inr (g', script_reports)"
    using t1 t2 t(1) by (simp add: run_Cons)
  with w(1) out1 have "run ?g0 (ws @ e1 # e2 # ts) = Inr (g', script_reports)"
    by (simp add: run_append)
  with t0 have "run g (e0 # ws @ e1 # e2 # ts) = Inr (g', script_reports)"
    by (simp add: run_Cons)
  with t(2) show ?thesis by simp
qed

lemma script_prefix:
  assumes "app_state g = STATE_IDLE" and "\<forall>e \<in> set es. ready_tick e"
  shows "\<exists>g' out. run g es = Inr (g', out) \<and> out = take (script_pos g') script_reports
    \<and> (if app_state g' = STATE_DONE then out = script_reports else True)"
proof -
  from assms(1) have o: "on_script g" and p: "script_pos g = 0"
    by (simp_all add: on_script_def script_pos_def)
  from assms(2) have m: "\<forall>e \<in> set es. mounted e \<and> accepting e"
    and ns: "\<forall>e \<in> set es. \<not> suspended e"
    by (simp_all add: ready_tick_def accepting_def)
  from script_run [OF o m] p obtain g' out where
    r: "run g es = Inr (g', out)" "on_script g'"
      "filter is_hid_report out = take (script_pos g') script_reports"
    by auto
  from run_only_reports [OF r(1) ns] r(3)
  have out: "out = take (script_pos g') script_reports" by simp
  have "out = script_reports" if "app_state g' = STATE_DONE"
    using out done_pos [OF r(2) that] by (simp add: length_script_reports)
  with r(1) out show ?thesis by simp
qed

section \<open>Stalls\<close>

lemma stall_task:
  assumes "stall_tick e" and "\<not> millis e - start_ms g < interval_ms"
  shows "\<exists>out. hid_task e g = Inr (g\<lparr>start_ms := start_ms g + interval_ms\<rparr>, out)
    \<and> filter is_hid_report out = []"
  using assms by (simp add: hid_task_def stall_tick_def Let_def)

lemma seq_view_run_Cons:
  assumes "hid_task e g = Inr (g1, out1)"
  shows "seq_view (run g (e # es)) =
     (case seq_view (run g1 es) of
        Inl f \<Rightarrow> Inl f
      | Inr (v, out2) \<Rightarrow> Inr (v, filter is_hid_report out1 @ out2))"
  using assms by (simp add: run_Cons seq_view_def split: sum.splits prod.splits)

lemma seq_view_run_fault:
  assumes "hid_task e g = Inl f"
  shows "seq_view (run g (e # es)) = Inl f"
  using assms by (simp add: run_Cons seq_view_def)

lemma stalls_do_not_matter:
  assumes "polls (start_ms g) es" and "polls s (filter (\<lambda>e. \<not> stall_tick e) es)"
  shows "seq_view (run (g\<lparr>start_ms := s\<rparr>) (filter (\<lambda>e. \<not> stall_tick e) es)) =
    seq_view (run g es)"
  using assms
proof (induction es arbitrary: g s)
  case Nil
  then show ?case by (simp add: run_Nil seq_view_def)
next
  case (Cons e es)
  from Cons.prems(1) have gate: "\<not> millis e - start_ms g < interval_ms"
    and rest: "polls (start_ms g + interval_ms) es"
    by simp_all
  show ?case
  proof (cases "stall_tick e")
    case True
    from stall_task [OF True gate] obtain out where
      st: "hid_task e g = Inr (g\<lparr>start_ms := start_ms g + interval_ms\<rparr>, out)"
        "filter is_hid_report out = []"
      by blast
    from Cons.prems(2) True have "polls s (filter (\<lambda>e. \<not> stall_tick e) es)" by simp
    from Cons.IH [of "g\<lparr>start_ms := start_ms g + interval_ms\<rparr>" s] rest this
    have "seq_view (run (g\<lparr>start_ms := s\<rparr>) (filter (\<lambda>e. \<not> stall_tick e) es)) =
        seq_view (run (g\<lparr>start_ms := start_ms g + interval_ms\<rparr>) es)"
      by simp
    with True st show ?thesis
      by (simp add: seq_view_run_Cons [OF st(1)] split: sum.splits prod.splits)
  next
    case False
    with Cons.prems(2) have gate': "\<not> millis e - s < interval_ms"
      and rest': "polls (s + interval_ms) (filter (\<lambda>e. \<not> stall_tick e) es)"
      by simp_all
    note eq = hid_task_start_ms [OF gate gate']
    show ?thesis
    proof (cases "hid_task e g")
      case (Inl f)
      with eq False show ?thesis
        by (simp add: seq_view_run_fault)
    next
      case (Inr p)
      then obtain g1 out1 where r: "hid_task e g = Inr (g1, out1)"
        by (cases p) simp
      with eq have r': "hid_task e (g\<lparr>start_ms := s\<rparr>) =
          Inr (g1\<lparr>start_ms := s + interval_ms\<rparr>, out1)"
        by simp
      from hid_task_open_start_ms [OF gate r] rest have "polls (start_ms g1) es" by simp
      from Cons.IH [OF this rest']
      have "seq_view (run (g1\<lparr>start_ms := s + interval_ms\<rparr>)
            (filter (\<lambda>e. \<not> stall_tick e) es)) = seq_view (run g1 es)" .
      with False show ?thesis
        by (simp add: seq_view_run_Cons [OF r] seq_view_run_Cons [OF r'])
    qed
  qed
qed

section \<open>The cursor stays inside the buffer\<close>

lemma hid_switch_cursor_ok:
  assumes "cursor_ok g"
  shows "\<exists>g' out. hid_switch e g = Inr (g', out) \<and> cursor_ok g'"
proof (cases "app_state g")
  case STATE_TYPE_CHAR
  show ?thesis
  proof (cases "text_index g = int (length text_to_type)")
    case True
    with STATE_TYPE_CHAR assms show ?thesis
      by (simp add: hid_switch_def text_read_def cursor_ok_def)
  next
    case False
    with assms have lt: "0 \<le> text_index g" "text_index g < int (length text_to_type)"
      by (simp_all add: cursor_ok_def)
    then have rd: "text_read (text_index g) = Inr (text_to_type ! nat (text_index g))"
      by (simp add: text_read_def)
    show ?thesis
      using STATE_TYPE_CHAR lt rd
      by (auto simp add: hid_switch_def cursor_ok_def split: prod.splits)
  qed
next
  case STATE_RELEASE_CHAR
  with assms show ?thesis
    by (auto simp add: hid_switch_def cursor_ok_def split: prod.splits)
qed (use assms in \<open>auto simp add: hid_switch_def cursor_ok_def split: prod.splits\<close>)

lemma cursor_ok_update [simp]:
  "cursor_ok (g\<lparr>start_ms := s\<rparr>) = cursor_ok g"
  "cursor_ok (g\<lparr>blink_interval_ms := b\<rparr>) = cursor_ok g"
  "cursor_ok (g\<lparr>led_start_ms := s, led_state := l\<rparr>) = cursor_ok g"
  "cursor_ok g \<Longrightarrow> cursor_ok (g\<lparr>app_state := STATE_IDLE\<rparr>)"
  by (simp_all add: cursor_ok_def)

lemma hid_task_cursor_ok:
  assumes "cursor_ok g"
  shows "\<exists>g' out. hid_task e g = Inr (g', out) \<and> cursor_ok g'"
  using assms hid_switch_cursor_ok [of "g\<lparr>start_ms := start_ms g + interval_ms\<rparr>" e]
  by (simp add: hid_task_def Let_def)

lemma fire_cursor_ok:
  assumes "cursor_ok g"
  shows "\<exists>g' out. fire s g = Inr (g', out) \<and> cursor_ok g'"
proof (cases s)
  case (HidTask e)
  with hid_task_cursor_ok [OF assms, of e] show ?thesis by simp
next
  case (LedTask now)
  with assms show ?thesis by (simp add: led_blinking_task_def)
next
  case (SetReportCb inst rid rt buf)
  with assms show ?thesis
    by (simp add: tud_hid_set_report_cb_def split: list.splits)
qed (use assms in \<open>simp_all add: tud_mount_cb_def tud_umount_cb_def tud_suspend_cb_def
      tud_resume_cb_def\<close>)

lemma exec_cursor_ok:
  assumes "cursor_ok g"
  shows "\<exists>g' out. exec g ss = Inr (g', out) \<and> cursor_ok g'"
  using assms
proof (induction ss arbitrary: g)
  case Nil
  then show ?case by simp
next
  case (Cons s ss)
  from fire_cursor_ok [OF Cons.prems] obtain g1 out1 where
    f: "fire s g = Inr (g1, out1)" "cursor_ok g1" by blast
  from Cons.IH [OF f(2)] obtain g2 out2 where
    r: "exec g1 ss = Inr (g2, out2)" "cursor_ok g2" by blast
  show ?case using f r by simp
qed

lemma cursor_ok_init: "cursor_ok init_state"
  by (simp add: cursor_ok_def init_state_def)

lemma length_text: "length text_to_type = 12"
  by (simp add: text_to_type_def)

section \<open>The blink interval\<close>

lemma hid_switch_blink:
  "hid_switch e g = Inr (g', out) \<Longrightarrow> blink_interval_ms g' = blink_interval_ms g"
  by (cases "app_state g")
    (auto simp add: hid_switch_def split: if_splits prod.splits sum.splits)

lemma hid_task_blink:
  "hid_task e g = Inr (g', out) \<Longrightarrow> blink_interval_ms g' = blink_interval_ms g"
  by (auto simp add: hid_task_def Let_def split: if_splits dest: hid_switch_blink)

lemma fire_blink:
  assumes "fire s g = Inr (g', out)"
  shows "blink_interval_ms g' =
    (case interval_written s of None \<Rightarrow> blink_interval_ms g | Some b \<Rightarrow> b)"
proof (cases s)
  case (HidTask e)
  with assms show ?thesis by (simp add: hid_task_blink)
next
  case (LedTask now)
  with assms show ?thesis by (auto simp add: led_blinking_task_def split: if_splits)
next
  case (SetReportCb inst rid rt buf)
  with assms show ?thesis
    by (auto simp add: tud_hid_set_report_cb_def split: if_splits list.splits)
qed (use assms in \<open>auto simp add: tud_mount_cb_def tud_umount_cb_def tud_suspend_cb_def
      tud_resume_cb_def\<close>)

lemma exec_blink:
  "exec g ss = Inr (g', out) \<Longrightarrow>
     blink_interval_ms g' = last_written (blink_interval_ms g) ss"
proof (induction ss arbitrary: g g' out)
  case Nil
  then show ?case by simp
next
  case (Cons s ss)
  from Cons.prems obtain g1 out1 out2 where
    f: "fire s g = Inr (g1, out1)" and r: "exec g1 ss = Inr (g', out2)"
    by (auto split: sum.splits prod.splits)
  from Cons.IH [OF r] fire_blink [OF f] show ?case by simp
qed

section \<open>Keycodes\<close>

lemma key_offset_no_wrap:
  assumes "0 \<le> d" and "d \<le> 25"
  shows "uint (word_of_int (uint HID_KEY_A + d) :: u8) = uint HID_KEY_A + d"
proof -
  define k where "k = uint HID_KEY_A + d"
  from assms have "0 \<le> k" and "k < 2 ^ 8"
    by (simp_all add: k_def HID_KEY_A_def)
  then have "take_bit 8 k = k"
    by (simp add: take_bit_int_eq_self)
  moreover have "uint (word_of_int k :: u8) = take_bit 8 k"
    by (simp add: uint_word_of_int_eq)
  ultimately have "uint (word_of_int k :: u8) = k"
    by simp
  then show ?thesis
    unfolding k_def .
qed

lemma key_no_wrap_lower:
  assumes "char_code (CHR ''a'') \<le> char_code c" "char_code c \<le> char_code (CHR ''z'')"
  shows "uint (snd (key_for_char c)) = uint HID_KEY_A + (char_code c - char_code (CHR ''a''))"
proof -
  from assms have "char_code c - char_code (CHR ''a'') \<le> 25"
    by (simp add: char_code_def)
  from key_offset_no_wrap [OF _ this] assms show ?thesis
    by (simp add: key_for_char_def del: of_int_add)
qed

lemma key_no_wrap_upper:
  assumes "char_code (CHR ''A'') \<le> char_code c" "char_code c \<le> char_code (CHR ''Z'')"
  shows "uint (snd (key_for_char c)) = uint HID_KEY_A + (char_code c - char_code (CHR ''A''))"
proof -
  from assms have "char_code c - char_code (CHR ''A'') \<le> 25"
    and "\<not> char_code (CHR ''a'') \<le> char_code c"
    by (simp_all add: char_code_def)
  from key_offset_no_wrap [OF _ this(1)] assms this(2) show ?thesis
    by (simp add: key_for_char_def del: of_int_add)
qed

lemma script_reports_explicit:
  "script_reports =
     [KeyboardReport REPORT_ID_KEYBOARD KEYBOARD_MODIFIER_LEFTSHIFT
        (Some [HID_KEY_A + 7, 0, 0, 0, 0, 0]),
      KeyboardReport REPORT_ID_KEYBOARD 0 None,
      KeyboardReport REPORT_ID_KEYBOARD 0 (Some [HID_KEY_A + 4, 0, 0, 0, 0, 0]),
      KeyboardReport REPORT_ID_KEYBOARD 0 None,
      KeyboardReport REPORT_ID_KEYBOARD 0 (Some [HID_KEY_A + 11, 0, 0, 0, 0, 0]),
      KeyboardReport REPORT_ID_KEYBOARD 0 None,
      KeyboardReport REPORT_ID_KEYBOARD 0 (Some [HID_KEY_A + 11, 0, 0, 0, 0, 0]),
      KeyboardReport REPORT_ID_KEYBOARD 0 None,
      KeyboardReport REPORT_ID_KEYBOARD 0 (Some [HID_KEY_A + 14, 0, 0, 0, 0, 0]),
      KeyboardReport REPORT_ID_KEYBOARD 0 None,
      KeyboardReport REPORT_ID_KEYBOARD 0 (Some [HID_KEY_SPACE, 0, 0, 0, 0, 0]),
      KeyboardReport REPORT_ID_KEYBOARD 0 None,
      KeyboardReport REPORT_ID_KEYBOARD KEYBOARD_MODIFIER_LEFTSHIFT
        (Some [HID_KEY_A + 22, 0, 0, 0, 0, 0]),
      KeyboardReport REPORT_ID_KEYBOARD 0 None,
      KeyboardReport REPORT_ID_KEYBOARD 0 (Some [HID_KEY_A + 14, 0, 0, 0, 0, 0]),
      KeyboardReport REPORT_ID_KEYBOARD 0 None,
      KeyboardReport REPORT_ID_KEYBOARD 0 (Some [HID_KEY_A + 17, 0, 0, 0, 0, 0]),
      KeyboardReport REPORT_ID_KEYBOARD 0 None,
      KeyboardReport REPORT_ID_KEYBOARD 0 (Some [HID_KEY_A + 11, 0, 0, 0, 0, 0]),
      KeyboardReport REPORT_ID_KEYBOARD 0 None,
      KeyboardReport REPORT_ID_KEYBOARD 0 (Some [HID_KEY_A + 3, 0, 0, 0, 0, 0]),
      KeyboardReport REPORT_ID_KEYBOARD 0 None,
      KeyboardReport REPORT_ID_KEYBOARD KEYBOARD_MODIFIER_LEFTSHIFT
        (Some [HID_KEY_1, 0, 0, 0, 0, 0]),
      KeyboardReport REPORT_ID_KEYBOARD 0 None]"
  by (simp add: script_reports_def text_to_type_def press_report_def release_report_def
      key_for_char_def char_code_def)

section \<open>The free-running schedule\<close>

lemma ready_clock: "\<forall>e \<in> set (clock_ticks a b). ready_tick e"
  by (simp add: clock_ticks_def good_tick_def ready_tick_def)

lemma polls_clock:
  "polls 0 (good_tick 10 # clock_ticks 2 202 @ good_tick 2020 # good_tick 2030 #
     clock_ticks 204 229)"
  by (simp add: clock_ticks_def good_tick_def interval_ms_def upt_rec)

lemma early_clock:
  "\<forall>w \<in> set (clock_ticks 2 202). unat (millis w - millis (good_tick 10)) \<le> 2000"
  by (simp add: clock_ticks_def good_tick_def upt_rec)

lemma split_clock:
  "clock_ticks 1 229 =
     good_tick 10 # clock_ticks 2 202 @ good_tick 2020 # good_tick 2030 # clock_ticks 204 229"
  by (simp add: clock_ticks_def upt_rec)

section \<open>The script "Hello World!"\<close>

text \<open>
  C1. From Idle, on a device that is mounted, not suspended and ready at every tick (the
  transport taking each report it is handed), the sequencer types "Hello World!": the
  reports of the script are one key press and one key release per character in script
  order, the left-shift modifier on the presses of H, W and ! and on no other; whatever
  the ticks' clock readings, the reports sent so far are the first reports of the
  script, as many as the state accounts for, and all of them once the state is Done; a
  run whose ticks pass the poll check, reach past 2000 ms after the first one, and number
  25 more after the two waits ends in Done with exactly the script sent; and Done is kept,
  with no further report, for as long as the device stays mounted. Calls that the poll
  check turns away count for nothing: a run is the run of its calls that pass.
\<close>

theorem hello_world_script:
  "script_reports =
     [KeyboardReport REPORT_ID_KEYBOARD KEYBOARD_MODIFIER_LEFTSHIFT
        (Some [HID_KEY_A + 7, 0, 0, 0, 0, 0]),
      KeyboardReport REPORT_ID_KEYBOARD 0 None,
      KeyboardReport REPORT_ID_KEYBOARD 0 (Some [HID_KEY_A + 4, 0, 0, 0, 0, 0]),
      KeyboardReport REPORT_ID_KEYBOARD 0 None,
      KeyboardReport REPORT_ID_KEYBOARD 0 (Some [HID_KEY_A + 11, 0, 0, 0, 0, 0]),
      KeyboardReport REPORT_ID_KEYBOARD 0 None,
      KeyboardReport REPORT_ID_KEYBOARD 0 (Some [HID_KEY_A + 11, 0, 0, 0, 0, 0]),
      KeyboardReport REPORT_ID_KEYBOARD 0 None,
      KeyboardReport REPORT_ID_KEYBOARD 0 (Some [HID_KEY_A + 14, 0, 0, 0, 0, 0]),
      KeyboardReport REPORT_ID_KEYBOARD 0 None,
      KeyboardReport REPORT_ID_KEYBOARD 0 (Some [HID_KEY_SPACE, 0, 0, 0, 0, 0]),
      KeyboardReport REPORT_ID_KEYBOARD 0 None,
      KeyboardReport REPORT_ID_KEYBOARD KEYBOARD_MODIFIER_LEFTSHIFT
        (Some [HID_KEY_A + 22, 0, 0, 0, 0, 0]),
      KeyboardReport REPORT_ID_KEYBOARD 0 None,
      KeyboardReport REPORT_ID_KEYBOARD 0 (Some [HID_KEY_A + 14, 0, 0, 0, 0, 0]),
      KeyboardReport REPORT_ID_KEYBOARD 0 None,
      KeyboardReport REPORT_ID_KEYBOARD 0 (Some [HID_KEY_A + 17, 0, 0, 0, 0, 0]),
      KeyboardReport REPORT_ID_KEYBOARD 0 None,
      KeyboardReport REPORT_ID_KEYBOARD 0 (Some [HID_KEY_A + 11, 0, 0, 0, 0, 0]),
      KeyboardReport REPORT_ID_KEYBOARD 0 None,
      KeyboardReport REPORT_ID_KEYBOARD 0 (Some [HID_KEY_A + 3, 0, 0, 0, 0, 0]),
      KeyboardReport REPORT_ID_KEYBOARD 0 None,
      KeyboardReport REPORT_ID_KEYBOARD KEYBOARD_MODIFIER_LEFTSHIFT
        (Some [HID_KEY_1, 0, 0, 0, 0, 0]),
      KeyboardReport REPORT_ID_KEYBOARD 0 None]
   \<and> KEYBOARD_MODIFIER_LEFTSHIFT \<noteq> 0
   \<and> (app_state g = STATE_IDLE \<and> (\<forall>e \<in> set es. ready_tick e) \<longrightarrow>
        (\<exists>g' out. run g es = Inr (g', out)
           \<and> out = take (script_pos g') script_reports
           \<and> (if app_state g' = STATE_DONE then out = script_reports else True)))
   \<and> (app_state g = STATE_IDLE
        \<and> (\<forall>e \<in> set (e0 # ws @ e1 # e2 # ts). ready_tick e)
        \<and> polls (start_ms g) (e0 # ws @ e1 # e2 # ts)
        \<and> (\<forall>w \<in> set ws. unat (millis w - millis e0) \<le> 2000)
        \<and> 2000 < unat (millis e1 - millis e0)
        \<and> 500 < unat (millis e2 - millis e0)
        \<and> 25 \<le> length ts \<longrightarrow>
        (\<exists>g'. run g (e0 # ws @ e1 # e2 # ts) = Inr (g', script_reports)
           \<and> app_state g' = STATE_DONE))
   \<and> (app_state d = STATE_DONE \<and> (\<forall>e \<in> set ds. mounted e) \<longrightarrow>
        (\<exists>d' out. run d ds = Inr (d', out) \<and> app_state d' = STATE_DONE
           \<and> text_index d' = text_index d \<and> filter is_hid_report out = []))
   \<and> run g (passing (start_ms g) cs) = run g cs
   \<and> polls (start_ms g) (passing (start_ms g) cs)"
proof (intro conjI impI)
  show "KEYBOARD_MODIFIER_LEFTSHIFT \<noteq> 0"
    by (simp add: KEYBOARD_MODIFIER_LEFTSHIFT_def)
next
  show "run g (passing (start_ms g) cs) = run g cs"
    by (rule run_passing)
next
  show "polls (start_ms g) (passing (start_ms g) cs)"
    by (rule polls_passing)
next
  assume "app_state g = STATE_IDLE \<and> (\<forall>e \<in> set es. ready_tick e)"
  then show "\<exists>g' out. run g es = Inr (g', out)
      \<and> out = take (script_pos g') script_reports
      \<and> (if app_state g' = STATE_DONE then out = script_reports else True)"
    using script_prefix [of g es] by blast
next
  assume "app_state g = STATE_IDLE
      \<and> (\<forall>e \<in> set (e0 # ws @ e1 # e2 # ts). ready_tick e)
      \<and> polls (start_ms g) (e0 # ws @ e1 # e2 # ts)
      \<and> (\<forall>w \<in> set ws. unat (millis w - millis e0) \<le> 2000)
      \<and> 2000 < unat (millis e1 - millis e0)
      \<and> 500 < unat (millis e2 - millis e0)
      \<and> 25 \<le> length ts"
  then show "\<exists>g'. run g (e0 # ws @ e1 # e2 # ts) = Inr (g', script_reports)
      \<and> app_state g' = STATE_DONE"
    using script_completes [of g e0 ws e1 e2 ts] by blast
next
  assume "app_state d = STATE_DONE \<and> (\<forall>e \<in> set ds. mounted e)"
  then show "\<exists>d' out. run d ds = Inr (d', out) \<and> app_state d' = STATE_DONE
      \<and> text_index d' = text_index d \<and> filter is_hid_report out = []"
    using done_run [of d ds] by blast
qed (rule script_reports_explicit)

theorem hello_world_script_witness:
  "\<exists>g'. run init_state (clock_ticks 1 229) = Inr (g', script_reports)
     \<and> app_state g' = STATE_DONE"
proof -
  have idle: "app_state init_state = STATE_IDLE"
    by (simp add: init_state_def)
  have ready: "\<forall>e \<in> set (good_tick 10 # clock_ticks 2 202 @ good_tick 2020 #
      good_tick 2030 # clock_ticks 204 229). ready_tick e"
    using ready_clock [of 2 202] ready_clock [of 204 229]
    by (auto simp add: good_tick_def ready_tick_def)
  have gate: "polls (start_ms init_state) (good_tick 10 # clock_ticks 2 202 @
      good_tick 2020 # good_tick 2030 # clock_ticks 204 229)"
    using polls_clock by (simp add: init_state_def)
  have late: "2000 < unat (millis (good_tick 2020) - millis (good_tick 10))"
    and later: "500 < unat (millis (good_tick 2030) - millis (good_tick 10))"
    by (simp_all add: good_tick_def)
  have enough: "25 \<le> length (clock_ticks 204 229)"
    by (simp add: clock_ticks_def)
  note live = hello_world_script [where g = init_state and ?e0.0 = "good_tick 10"
      and ws = "clock_ticks 2 202" and ?e1.0 = "good_tick 2020" and ?e2.0 = "good_tick 2030"
      and ts = "clock_ticks 204 229",
      THEN conjunct2, THEN conjunct2, THEN conjunct2, THEN conjunct1]
  from live idle ready gate early_clock late later enough
  have "\<exists>g'. run init_state (good_tick 10 # clock_ticks 2 202 @ good_tick 2020 #
      good_tick 2030 # clock_ticks 204 229) = Inr (g', script_reports)
      \<and> app_state g' = STATE_DONE"
    by blast
  then show ?thesis
    by (simp only: split_clock)
qed

section \<open>Ticks on which the transport is not ready\<close>

text \<open>
  C2, as claimed: on every tick with transport readiness false, the sequencer state, the
  cursor and the timers are unchanged and no report is sent. It fails on the code at a
  tick where the device is not mounted (and so not ready either): the mounted guard comes
  first and forces the state from TypeChar to Idle; the poll anchor \<open>start_ms\<close> has
  moved from 0 to 10 as well.
\<close>

theorem not_ready_tick_resets_counterexample:
  "hid_task \<lparr>millis = 10, mounted = False, suspended = False, hid_ready = False,
             xfer_ok = False\<rparr> (init_state\<lparr>app_state := STATE_TYPE_CHAR\<rparr>) =
     Inr (init_state\<lparr>app_state := STATE_IDLE, start_ms := 10\<rparr>, [])
   \<and> app_state (init_state\<lparr>app_state := STATE_IDLE, start_ms := 10\<rparr>) \<noteq> STATE_TYPE_CHAR
   \<and> start_ms (init_state\<lparr>app_state := STATE_IDLE, start_ms := 10\<rparr>) \<noteq>
       start_ms (init_state\<lparr>app_state := STATE_TYPE_CHAR\<rparr>)"
  by (simp add: hid_task_def init_state_def interval_ms_def)

text \<open>
  C2, amended: on every call of \<open>hid_task\<close> that finds the transport not ready, the
  text cursor, the state timer \<open>state_start_ms\<close> and the blink interval are unchanged
  and no HID report is sent, whether the device is mounted or not. The sequencer state is
  unchanged when the device is mounted; a call that passes the poll check and finds the
  device unmounted sets it to Idle. The poll anchor \<open>start_ms\<close> advances by 10 when
  the poll check passes (and a mounted, suspended device gets its remote wakeup request,
  which is no HID report).
\<close>

theorem not_ready_tick_stalls:
  assumes "\<not> hid_ready e"
  shows "\<exists>g' out. hid_task e g = Inr (g', out)
    \<and> app_state g' =
        (if \<not> mounted e \<and> \<not> millis e - start_ms g < interval_ms then STATE_IDLE
         else app_state g)
    \<and> text_index g' = text_index g
    \<and> state_start_ms g' = state_start_ms g
    \<and> blink_interval_ms g' = blink_interval_ms g
    \<and> led_start_ms g' = led_start_ms g
    \<and> led_state g' = led_state g
    \<and> start_ms g' =
        (if millis e - start_ms g < interval_ms then start_ms g else start_ms g + interval_ms)
    \<and> filter is_hid_report out = []
    \<and> out =
        (if mounted e \<and> suspended e \<and> \<not> millis e - start_ms g < interval_ms
         then [RemoteWakeup] else [])"
  using assms by (simp add: hid_task_def Let_def)

theorem not_ready_tick_stalls_witness:
  "hid_task \<lparr>millis = 10, mounted = True, suspended = False, hid_ready = False,
             xfer_ok = True\<rparr> (init_state\<lparr>app_state := STATE_TYPE_CHAR, text_index := 3\<rparr>) =
     Inr (init_state\<lparr>app_state := STATE_TYPE_CHAR, text_index := 3, start_ms := 10\<rparr>, [])
   \<and> hid_task \<lparr>millis = 10, mounted = False, suspended = False, hid_ready = False,
             xfer_ok = False\<rparr> (init_state\<lparr>app_state := STATE_TYPE_CHAR, text_index := 3\<rparr>) =
     Inr (init_state\<lparr>app_state := STATE_IDLE, text_index := 3, start_ms := 10\<rparr>, [])"
  using not_ready_tick_stalls [of "\<lparr>millis = 10, mounted = True, suspended = False,
      hid_ready = False, xfer_ok = True\<rparr>"
      "init_state\<lparr>app_state := STATE_TYPE_CHAR, text_index := 3\<rparr>"]
    not_ready_tick_stalls [of "\<lparr>millis = 10, mounted = False, suspended = False,
      hid_ready = False, xfer_ok = False\<rparr>"
      "init_state\<lparr>app_state := STATE_TYPE_CHAR, text_index := 3\<rparr>"]
  by (simp add: hid_task_def init_state_def interval_ms_def)

section \<open>Unmounting and the sequencer\<close>

text \<open>
  C3, as claimed: every unmount event puts the sequencer in Idle, the unmount handler
  signalling the reset. It fails on the code: \<open>tud_umount_cb\<close> writes the blink interval
  only, so a sequencer that was in Done is still in Done when the handler returns.
\<close>

theorem umount_cb_leaves_done_counterexample:
  "app_state (tud_umount_cb (init_state\<lparr>app_state := STATE_DONE\<rparr>)) = STATE_DONE
   \<and> app_state (tud_umount_cb (init_state\<lparr>app_state := STATE_DONE\<rparr>)) \<noteq> STATE_IDLE"
  by (simp add: tud_umount_cb_def init_state_def)

text \<open>
  C3, amended: the unmount handler leaves the sequencer state as it was and selects the
  unmounted blink cadence. The reset is done by \<open>hid_task\<close> polling \<open>tud_mounted()\<close>:
  a call that finds the device unmounted does nothing while the 10 ms poll check fails, and
  once the check passes it sets the state to Idle, whatever the state was, and sends
  nothing.
\<close>

theorem umount_resets_on_next_poll:
  assumes "\<not> mounted e"
  shows "app_state (tud_umount_cb g) = app_state g
    \<and> blink_interval_ms (tud_umount_cb g) = BLINK_NOT_MOUNTED
    \<and> hid_task e (tud_umount_cb g) =
        (if millis e - start_ms g < interval_ms then Inr (tud_umount_cb g, [])
         else Inr (tud_umount_cb g\<lparr>start_ms := start_ms g + interval_ms,
                                   app_state := STATE_IDLE\<rparr>, []))"
  using assms by (simp add: tud_umount_cb_def hid_task_def Let_def)

theorem umount_resets_on_next_poll_witness:
  "app_state (tud_umount_cb (init_state\<lparr>app_state := STATE_DONE\<rparr>)) = STATE_DONE
   \<and> hid_task \<lparr>millis = 10, mounted = False, suspended = False, hid_ready = False,
                xfer_ok = False\<rparr>
        (tud_umount_cb (init_state\<lparr>app_state := STATE_DONE\<rparr>)) =
      Inr (init_state\<lparr>start_ms := 10, app_state := STATE_IDLE\<rparr>, [])"
  using umount_resets_on_next_poll [of "\<lparr>millis = 10, mounted = False, suspended = False,
      hid_ready = False, xfer_ok = False\<rparr>" "init_state\<lparr>app_state := STATE_DONE\<rparr>"]
  by (simp add: init_state_def tud_umount_cb_def interval_ms_def BLINK_NOT_MOUNTED_def)

section \<open>The cursor in the typing loop\<close>

text \<open>
  C4. In the TypeChar/ReleaseChar loop a press leaves the cursor where it is and the
  release that follows it adds exactly 1. Under any interleaving of ticks on a mounted
  device whose transport takes the reports it is handed when ready (ready ticks, stalls,
  suspended ticks, calls the poll check turns away), the HID reports sent are the reports
  of the script from the position the run started at to the position it ended at: no
  character is skipped or repeated. And a run with readiness stalls shows the same
  sequencer state and sends the same reports as the run without them, when the calls of
  both pass the poll check.
\<close>

theorem typing_loop_cursor:
  "(app_state g = STATE_RELEASE_CHAR \<and> ready_tick e
      \<and> \<not> millis e - start_ms g < interval_ms \<longrightarrow>
      hid_task e g =
        Inr (g\<lparr>start_ms := start_ms g + interval_ms, text_index := text_index g + 1,
               app_state := STATE_TYPE_CHAR\<rparr>, [release_report]))
   \<and> (app_state g = STATE_TYPE_CHAR \<and> 0 \<le> text_index g
      \<and> text_index g < int (length text_to_type) \<and> ready_tick e
      \<and> \<not> millis e - start_ms g < interval_ms \<longrightarrow>
      hid_task e g =
        Inr (g\<lparr>start_ms := start_ms g + interval_ms, app_state := STATE_RELEASE_CHAR\<rparr>,
             [press_report (text_to_type ! nat (text_index g))]))
   \<and> (typing g \<and> (\<forall>e \<in> set es. mounted e \<and> accepting e) \<longrightarrow>
      (\<exists>g' out. run g es = Inr (g', out) \<and> typing g'
         \<and> script_pos g \<le> script_pos g'
         \<and> filter is_hid_report out =
             take (script_pos g' - script_pos g) (drop (script_pos g) script_reports)))
   \<and> (polls (start_ms g) es \<and> polls (start_ms g) (filter (\<lambda>e. \<not> stall_tick e) es) \<longrightarrow>
      seq_view (run g (filter (\<lambda>e. \<not> stall_tick e) es)) = seq_view (run g es))"
proof (intro conjI impI)
  assume a: "app_state g = STATE_RELEASE_CHAR \<and> ready_tick e
      \<and> \<not> millis e - start_ms g < interval_ms"
  let ?g1 = "g\<lparr>start_ms := start_ms g + interval_ms\<rparr>"
  from a have "hid_task e g = hid_switch e ?g1"
    by (simp add: hid_task_def Let_def ready_tick_def)
  with a switch_release_char [of ?g1 e]
  show "hid_task e g =
      Inr (g\<lparr>start_ms := start_ms g + interval_ms, text_index := text_index g + 1,
             app_state := STATE_TYPE_CHAR\<rparr>, [release_report])"
    by (simp add: ready_tick_def)
next
  assume a: "app_state g = STATE_TYPE_CHAR \<and> 0 \<le> text_index g
      \<and> text_index g < int (length text_to_type) \<and> ready_tick e
      \<and> \<not> millis e - start_ms g < interval_ms"
  let ?g1 = "g\<lparr>start_ms := start_ms g + interval_ms\<rparr>"
  from a have "hid_task e g = hid_switch e ?g1"
    by (simp add: hid_task_def Let_def ready_tick_def)
  with a switch_type_char [of ?g1 e]
  show "hid_task e g =
      Inr (g\<lparr>start_ms := start_ms g + interval_ms, app_state := STATE_RELEASE_CHAR\<rparr>,
           [press_report (text_to_type ! nat (text_index g))])"
    by (simp add: ready_tick_def)
next
  assume "typing g \<and> (\<forall>e \<in> set es. mounted e \<and> accepting e)"
  then show "\<exists>g' out. run g es = Inr (g', out) \<and> typing g'
      \<and> script_pos g \<le> script_pos g'
      \<and> filter is_hid_report out =
          take (script_pos g' - script_pos g) (drop (script_pos g) script_reports)"
    using typing_script_run [of g es] by blast
next
  assume "polls (start_ms g) es \<and> polls (start_ms g) (filter (\<lambda>e. \<not> stall_tick e) es)"
  then show "seq_view (run g (filter (\<lambda>e. \<not> stall_tick e) es)) = seq_view (run g es)"
    using stalls_do_not_matter [of g es "start_ms g"] by simp
qed

theorem typing_loop_cursor_witness:
  "seq_view (run (init_state\<lparr>app_state := STATE_TYPE_CHAR\<rparr>)
       [good_tick 10, (good_tick 20)\<lparr>hid_ready := False, xfer_ok := False\<rparr>, good_tick 30]) =
     Inr ((STATE_TYPE_CHAR, 1, 0), [press_report (CHR ''H''), release_report])
   \<and> seq_view (run (init_state\<lparr>app_state := STATE_TYPE_CHAR\<rparr>)
       [good_tick 10, good_tick 30]) =
     Inr ((STATE_TYPE_CHAR, 1, 0), [press_report (CHR ''H''), release_report])"
proof -
  let ?g = "init_state\<lparr>app_state := STATE_TYPE_CHAR\<rparr>"
  let ?es = "[good_tick 10, (good_tick 20)\<lparr>hid_ready := False, xfer_ok := False\<rparr>, good_tick 30]"
  have f: "filter (\<lambda>e. \<not> stall_tick e) ?es = [good_tick 10, good_tick 30]"
    by (simp add: stall_tick_def good_tick_def)
  have p: "polls (start_ms ?g) ?es \<and> polls (start_ms ?g) (filter (\<lambda>e. \<not> stall_tick e) ?es)"
    unfolding f by (simp add: init_state_def good_tick_def interval_ms_def)
  note same = typing_loop_cursor [where g = ?g and es = ?es,
      THEN conjunct2, THEN conjunct2, THEN conjunct2]
  from same p have eq: "seq_view (run ?g [good_tick 10, good_tick 30]) = seq_view (run ?g ?es)"
    unfolding f by blast
  have "seq_view (run ?g [good_tick 10, good_tick 30]) =
      Inr ((STATE_TYPE_CHAR, 1, 0), [press_report (CHR ''H''), release_report])"
    by (simp add: seq_view_def run_def init_state_def good_tick_def hid_task_def
        hid_switch_def interval_ms_def Let_def text_read_def text_to_type_def
        send_key_press_def send_keyboard_report_def send_key_release_def press_report_def
        release_report_def split: prod.splits)
  with eq show ?thesis by simp
qed

section \<open>The wait before typing\<close>

text \<open>
  C5. Each waiting state is claimed to capture its own anchor on entry, WaitBeforeType
  also when entered from WaitInit, so that typing starts only 500 ms after WaitBeforeType
  was entered. On the free-running schedule the code enters WaitBeforeType at call 202
  (clock 2020) with \<open>state_start_ms\<close> still 10, the anchor captured on leaving Idle,
  and leaves it for TypeChar at call 203 (clock 2030), 10 ms after entering it: line 220
  does not write \<open>state_start_ms\<close>, which line 244 on the ClickRelease path does.
\<close>

theorem wait_before_type_not_reanchored:
  "run init_state (clock_ticks 1 202) =
     Inr (init_state\<lparr>app_state := STATE_WAIT_INIT, state_start_ms := 10, start_ms := 2010\<rparr>, [])
   \<and> run init_state (clock_ticks 1 203) =
     Inr (init_state\<lparr>app_state := STATE_WAIT_BEFORE_TYPE, state_start_ms := 10,
                     start_ms := 2020\<rparr>, [])
   \<and> run init_state (clock_ticks 1 204) =
     Inr (init_state\<lparr>app_state := STATE_TYPE_CHAR, state_start_ms := 10, start_ms := 2030\<rparr>, [])
   \<and> hid_task (good_tick 2030)
       (init_state\<lparr>app_state := STATE_CLICK_RELEASE, state_start_ms := 10, start_ms := 2020\<rparr>) =
     Inr (init_state\<lparr>app_state := STATE_WAIT_BEFORE_TYPE, state_start_ms := 2030,
                     start_ms := 2030\<rparr>,
          [MouseReport REPORT_ID_MOUSE 0 0 0 0 0])"
  by (simp add: run_def clock_ticks_def good_tick_def init_state_def hid_task_def
      hid_switch_def interval_ms_def upt_rec Let_def send_mouse_release_def)

section \<open>The initial wait\<close>

text \<open>
  C6, as claimed: the transition from WaitInit to WaitBeforeType never fires before
  2000 ms of mounted-and-ready time have elapsed since the anchor. It fails on the code:
  the guards of lines 202-209 return without pausing the timer. On a device that is ready
  at the tick of 10 ms, has its transport not ready at every tick from 20 ms to 2010 ms,
  and is ready again at the tick of 2020 ms, the transition fires at 2020 ms, on the
  second ready tick after power-up.
\<close>

theorem wait_init_counts_stalled_time_counterexample:
  "run init_state (good_tick 10 # stalled_ticks 2 202 @ [good_tick 2020]) =
     Inr (init_state\<lparr>app_state := STATE_WAIT_BEFORE_TYPE, state_start_ms := 10,
                     start_ms := 2020\<rparr>, [])
   \<and> filter hid_ready (good_tick 10 # stalled_ticks 2 202 @ [good_tick 2020]) =
     [good_tick 10, good_tick 2020]
   \<and> length (stalled_ticks 2 202) = 200"
  by (simp add: run_def stalled_ticks_def good_tick_def init_state_def hid_task_def
      hid_switch_def interval_ms_def upt_rec Let_def)

text \<open>
  C6, amended: the 2000 ms are clock time since the anchor, on a device that stays
  mounted; time it spends not ready or suspended counts. The anchor is the clock reading
  of the tick that leaves Idle. In WaitInit, as long as the ticks read a clock not more
  than 2000 ms past the anchor, the state stays WaitInit whatever else the ticks find (the
  device mounted); a tick that passes the poll check on a mounted, not suspended, ready
  device moves to WaitBeforeType exactly when it reads more than 2000 ms past the anchor:
  not at 1999 or 2000, and at 2001; and a tick that passes the poll check on an unmounted
  device goes back to Idle, from where the anchor is captured anew. The elapsed time is
  the one the code measures, the 32-bit difference of the clock reading and the anchor.
\<close>

theorem wait_init_threshold:
  assumes "app_state g = STATE_WAIT_INIT"
  shows "(\<forall>es. (\<forall>e \<in> set es. mounted e \<and> unat (millis e - state_start_ms g) \<le> 2000) \<longrightarrow>
           (\<exists>g' out. run g es = Inr (g', out) \<and> app_state g' = STATE_WAIT_INIT
              \<and> state_start_ms g' = state_start_ms g \<and> filter is_hid_report out = []))
    \<and> (\<forall>e. \<not> millis e - start_ms g < interval_ms \<and> mounted e \<and> \<not> suspended e \<and> hid_ready e \<longrightarrow>
           hid_task e g =
             Inr (g\<lparr>start_ms := start_ms g + interval_ms,
                    app_state := (if 2000 < unat (millis e - state_start_ms g)
                                  then STATE_WAIT_BEFORE_TYPE else STATE_WAIT_INIT)\<rparr>, []))
    \<and> (\<forall>g0 e0. app_state g0 = STATE_IDLE \<and> \<not> millis e0 - start_ms g0 < interval_ms
           \<and> mounted e0 \<and> \<not> suspended e0 \<and> hid_ready e0 \<longrightarrow>
           hid_task e0 g0 =
             Inr (g0\<lparr>start_ms := start_ms g0 + interval_ms, state_start_ms := millis e0,
                     app_state := STATE_WAIT_INIT\<rparr>, []))
    \<and> (\<forall>e. \<not> millis e - start_ms g < interval_ms \<and> \<not> mounted e \<longrightarrow>
           hid_task e g =
             Inr (g\<lparr>start_ms := start_ms g + interval_ms, app_state := STATE_IDLE\<rparr>, []))"
proof (intro conjI allI impI)
  fix e :: env
  assume "\<not> millis e - start_ms g < interval_ms \<and> \<not> mounted e"
  then show "hid_task e g =
      Inr (g\<lparr>start_ms := start_ms g + interval_ms, app_state := STATE_IDLE\<rparr>, [])"
    by (simp add: hid_task_def Let_def)
next
  fix es :: "env list"
  assume "\<forall>e \<in> set es. mounted e \<and> unat (millis e - state_start_ms g) \<le> 2000"
  with assms show "\<exists>g' out. run g es = Inr (g', out) \<and> app_state g' = STATE_WAIT_INIT
      \<and> state_start_ms g' = state_start_ms g \<and> filter is_hid_report out = []"
    by (rule wait_init_run)
next
  fix e :: env
  assume e: "\<not> millis e - start_ms g < interval_ms \<and> mounted e \<and> \<not> suspended e \<and> hid_ready e"
  have "(2000 < millis e - state_start_ms g) = (2000 < unat (millis e - state_start_ms g))"
    by (simp add: word_less_nat_alt)
  then show "hid_task e g =
      Inr (g\<lparr>start_ms := start_ms g + interval_ms,
             app_state := (if 2000 < unat (millis e - state_start_ms g)
                           then STATE_WAIT_BEFORE_TYPE else STATE_WAIT_INIT)\<rparr>, [])"
    using assms e by (simp add: hid_task_def hid_switch_def Let_def)
next
  fix g0 :: hid_state and e0 :: env
  assume "app_state g0 = STATE_IDLE \<and> \<not> millis e0 - start_ms g0 < interval_ms
      \<and> mounted e0 \<and> \<not> suspended e0 \<and> hid_ready e0"
  then show "hid_task e0 g0 =
      Inr (g0\<lparr>start_ms := start_ms g0 + interval_ms, state_start_ms := millis e0,
              app_state := STATE_WAIT_INIT\<rparr>, [])"
    using idle_tick [of g0 e0] by blast
qed

theorem wait_init_threshold_witness:
  "hid_task (good_tick 2009)
      (init_state\<lparr>app_state := STATE_WAIT_INIT, state_start_ms := 10, start_ms := 1990\<rparr>) =
     Inr (init_state\<lparr>app_state := STATE_WAIT_INIT, state_start_ms := 10, start_ms := 2000\<rparr>, [])
   \<and> hid_task (good_tick 2010)
      (init_state\<lparr>app_state := STATE_WAIT_INIT, state_start_ms := 10, start_ms := 1990\<rparr>) =
     Inr (init_state\<lparr>app_state := STATE_WAIT_INIT, state_start_ms := 10, start_ms := 2000\<rparr>, [])
   \<and> hid_task (good_tick 2011)
      (init_state\<lparr>app_state := STATE_WAIT_INIT, state_start_ms := 10, start_ms := 1990\<rparr>) =
     Inr (init_state\<lparr>app_state := STATE_WAIT_BEFORE_TYPE, state_start_ms := 10,
                     start_ms := 2000\<rparr>, [])"
proof -
  let ?g = "init_state\<lparr>app_state := STATE_WAIT_INIT, state_start_ms := 10, start_ms := 1990\<rparr>"
  have "app_state ?g = STATE_WAIT_INIT" by simp
  note step = wait_init_threshold [OF this, THEN conjunct2, THEN conjunct1, rule_format]
  from step [of "good_tick 2009"] step [of "good_tick 2010"] step [of "good_tick 2011"]
  show ?thesis
    by (simp add: good_tick_def init_state_def interval_ms_def)
qed

section \<open>Report transport: the readiness check\<close>

text \<open>
  C7. Every send helper is claimed to check transport readiness first and, when the
  transport is not ready, to return false with nothing handed to the transport. With
  \<open>tud_hid_ready()\<close> false, \<open>send_keyboard_report\<close>, \<open>send_key_press\<close> and the three
  mouse helpers do exactly that; \<open>send_key_release\<close> (line 91) has no readiness check:
  it hands the all-clear keyboard report to \<open>tud_hid_keyboard_report\<close> and returns
  whatever the transport answers.
\<close>

theorem send_key_release_skips_ready_check:
  "send_key_release (e\<lparr>hid_ready := False\<rparr>) =
     (xfer_ok e, [KeyboardReport REPORT_ID_KEYBOARD 0 None])
   \<and> send_keyboard_report (e\<lparr>hid_ready := False\<rparr>) report_id modifier keycode = (False, [])
   \<and> send_key_press (e\<lparr>hid_ready := False\<rparr>) modifier key_code = (False, [])
   \<and> send_mouse_move (e\<lparr>hid_ready := False\<rparr>) x y = (False, [])
   \<and> send_mouse_click (e\<lparr>hid_ready := False\<rparr>) buttons = (False, [])
   \<and> send_mouse_release (e\<lparr>hid_ready := False\<rparr>) = (False, [])"
  by (simp add: send_key_release_def send_keyboard_report_def send_key_press_def
      send_mouse_move_def send_mouse_click_def send_mouse_release_def)

section \<open>The character mapping\<close>

text \<open>
  C8. The pair (modifier, keycode) computed for a character: a lowercase letter gives
  \<open>HID_KEY_A\<close> plus its offset from \<open>a\<close> and no modifier; an uppercase letter gives
  \<open>HID_KEY_A\<close> plus its offset from \<open>A\<close> and the left-shift modifier (in both cases
  the sum fits the byte it is stored in); the space gives \<open>HID_KEY_SPACE\<close> and no
  modifier; \<open>!\<close> gives \<open>HID_KEY_1\<close> and left-shift; every other character gives
  keycode 0 and no modifier. In TypeChar, a tick that gets through the guards with a
  character other than the terminating NUL under the cursor hands the transport one
  keyboard report with that modifier and that keycode in the first of six slots, the
  rest zero.
\<close>

theorem key_for_char_mapping:
  "(char_code (CHR ''a'') \<le> char_code c \<and> char_code c \<le> char_code (CHR ''z'') \<longrightarrow>
      key_for_char c = (0, HID_KEY_A + word_of_int (char_code c - char_code (CHR ''a'')))
      \<and> uint (snd (key_for_char c)) = uint HID_KEY_A + (char_code c - char_code (CHR ''a'')))
   \<and> (char_code (CHR ''A'') \<le> char_code c \<and> char_code c \<le> char_code (CHR ''Z'') \<longrightarrow>
      key_for_char c =
        (KEYBOARD_MODIFIER_LEFTSHIFT,
         HID_KEY_A + word_of_int (char_code c - char_code (CHR ''A'')))
      \<and> uint (snd (key_for_char c)) = uint HID_KEY_A + (char_code c - char_code (CHR ''A'')))
   \<and> key_for_char (CHR '' '') = (0, HID_KEY_SPACE)
   \<and> key_for_char (CHR ''!'') = (KEYBOARD_MODIFIER_LEFTSHIFT, HID_KEY_1)
   \<and> (\<not> (char_code (CHR ''a'') \<le> char_code c \<and> char_code c \<le> char_code (CHR ''z'')) \<and>
       \<not> (char_code (CHR ''A'') \<le> char_code c \<and> char_code c \<le> char_code (CHR ''Z'')) \<and>
       c \<noteq> CHR '' '' \<and> c \<noteq> CHR ''!'' \<longrightarrow> key_for_char c = (0, 0))
   \<and> (app_state g = STATE_TYPE_CHAR \<and> text_read (text_index g) = Inr c \<and> c \<noteq> CHR 0x00 \<and>
       \<not> millis e - start_ms g < interval_ms \<and> mounted e \<and> \<not> suspended e \<and> hid_ready e \<longrightarrow>
       hid_task e g =
         Inr (if xfer_ok e
              then g\<lparr>start_ms := start_ms g + interval_ms, app_state := STATE_RELEASE_CHAR\<rparr>
              else g\<lparr>start_ms := start_ms g + interval_ms\<rparr>,
              [KeyboardReport REPORT_ID_KEYBOARD (fst (key_for_char c))
                 (Some [snd (key_for_char c), 0, 0, 0, 0, 0])]))"
proof (intro conjI impI)
  assume "char_code (CHR ''a'') \<le> char_code c \<and> char_code c \<le> char_code (CHR ''z'')"
  then show "uint (snd (key_for_char c)) =
      uint HID_KEY_A + (char_code c - char_code (CHR ''a''))"
    using key_no_wrap_lower [of c] by blast
next
  assume "char_code (CHR ''A'') \<le> char_code c \<and> char_code c \<le> char_code (CHR ''Z'')"
  then show "uint (snd (key_for_char c)) =
      uint HID_KEY_A + (char_code c - char_code (CHR ''A''))"
    using key_no_wrap_upper [of c] by blast
next
  assume "app_state g = STATE_TYPE_CHAR \<and> text_read (text_index g) = Inr c \<and> c \<noteq> CHR 0x00 \<and>
      \<not> millis e - start_ms g < interval_ms \<and> mounted e \<and> \<not> suspended e \<and> hid_ready e"
  then show "hid_task e g =
      Inr (if xfer_ok e
           then g\<lparr>start_ms := start_ms g + interval_ms, app_state := STATE_RELEASE_CHAR\<rparr>
           else g\<lparr>start_ms := start_ms g + interval_ms\<rparr>,
           [KeyboardReport REPORT_ID_KEYBOARD (fst (key_for_char c))
              (Some [snd (key_for_char c), 0, 0, 0, 0, 0])])"
    by (simp add: hid_task_def hid_switch_def Let_def send_key_press_def
        send_keyboard_report_def split: prod.splits)
qed (auto simp add: key_for_char_def char_code_def)

theorem key_for_char_mapping_witness:
  "key_for_char (CHR ''d'') = (0, 0x07)
   \<and> key_for_char (CHR ''W'') = (0x02, 0x1A)
   \<and> key_for_char (CHR ''?'') = (0, 0)
   \<and> hid_task (good_tick 10) (init_state\<lparr>app_state := STATE_TYPE_CHAR, text_index := 6\<rparr>) =
       Inr (init_state\<lparr>app_state := STATE_RELEASE_CHAR, text_index := 6, start_ms := 10\<rparr>,
            [KeyboardReport 1 0x02 (Some [0x1A, 0, 0, 0, 0, 0])])"
proof -
  let ?g = "init_state\<lparr>app_state := STATE_TYPE_CHAR, text_index := 6\<rparr>"
  have rd: "text_read (text_index ?g) = Inr (CHR ''W'')"
    by (simp add: text_read_def text_to_type_def)
  note d = key_for_char_mapping [where c = "CHR ''d''", THEN conjunct1]
  note w = key_for_char_mapping [where c = "CHR ''W''", THEN conjunct2, THEN conjunct1]
  note q = key_for_char_mapping [where c = "CHR ''?''", THEN conjunct2, THEN conjunct2,
      THEN conjunct2, THEN conjunct2, THEN conjunct1]
  note t = key_for_char_mapping [where c = "CHR ''W''" and g = ?g and e = "good_tick 10",
      THEN conjunct2, THEN conjunct2, THEN conjunct2, THEN conjunct2, THEN conjunct2]
  from d have "key_for_char (CHR ''d'') = (0, 0x07)"
    by (simp add: char_code_def HID_KEY_A_def)
  moreover from w have kw: "key_for_char (CHR ''W'') = (0x02, 0x1A)"
    by (simp add: char_code_def HID_KEY_A_def KEYBOARD_MODIFIER_LEFTSHIFT_def)
  moreover from q have "key_for_char (CHR ''?'') = (0, 0)"
    by (simp add: char_code_def)
  moreover from t rd kw have "hid_task (good_tick 10) ?g =
      Inr (init_state\<lparr>app_state := STATE_RELEASE_CHAR, text_index := 6, start_ms := 10\<rparr>,
           [KeyboardReport 1 0x02 (Some [0x1A, 0, 0, 0, 0, 0])])"
    by (simp add: good_tick_def init_state_def interval_ms_def REPORT_ID_KEYBOARD_def)
  ultimately show ?thesis by simp
qed

section \<open>The blink interval and the Capslock report\<close>

text \<open>
  C9, as claimed: while the indicator lock is engaged by a Capslock report, the interval
  is 0 and the lock takes precedence over the connection state. It fails on the code,
  which has no lock: after mount and a keyboard LED report with the Capslock bit set the
  interval is 0, and a suspend that follows overwrites it with the suspended cadence
  while the host still holds Capslock.
\<close>

theorem capslock_lock_overwritten_counterexample:
  "exec init_state [MountCb, caps_on] =
     Inr (init_state\<lparr>blink_interval_ms := 0\<rparr>, [LedWrite True])
   \<and> exec init_state [MountCb, caps_on, SuspendCb True] =
     Inr (init_state\<lparr>blink_interval_ms := BLINK_SUSPENDED\<rparr>, [LedWrite True])
   \<and> BLINK_SUSPENDED \<noteq> 0"
  by (simp add: caps_on_def init_state_def tud_mount_cb_def tud_suspend_cb_def
      tud_hid_set_report_cb_def KEYBOARD_LED_CAPSLOCK_def BLINK_SUSPENDED_def)

text \<open>
  C9, amended: the blink interval is the value written by the last callback that writes
  it, whatever was there before: mount the mounted cadence, unmount the unmounted one,
  suspend the suspended one, resume the mounted or the unmounted one as \<open>tud_mounted()\<close>
  answers, and an output report for the keyboard report id with a payload of at least one
  byte 0 when the Capslock bit of its first byte is set and the mounted cadence when it is
  clear; \<open>hid_task\<close> and the blinking task never write it. The Capslock report also
  drives the indicator on (bit set) or off (bit clear); while the interval is 0 the
  blinking task writes nothing, so the indicator stays as driven until a later callback
  writes the interval. A zero-length payload changes no state and writes nothing.
\<close>

theorem blink_interval_last_writer:
  "(\<forall>g' out. exec g ss = Inr (g', out) \<longrightarrow>
       blink_interval_ms g' = last_written (blink_interval_ms g) ss)
   \<and> (kbd_leds AND KEYBOARD_LED_CAPSLOCK \<noteq> 0 \<longrightarrow>
       tud_hid_set_report_cb inst REPORT_ID_KEYBOARD HID_REPORT_TYPE_OUTPUT (kbd_leds # rest) g =
         (g\<lparr>blink_interval_ms := 0\<rparr>, [LedWrite True]))
   \<and> (kbd_leds AND KEYBOARD_LED_CAPSLOCK = 0 \<longrightarrow>
       tud_hid_set_report_cb inst REPORT_ID_KEYBOARD HID_REPORT_TYPE_OUTPUT (kbd_leds # rest) g =
         (g\<lparr>blink_interval_ms := BLINK_MOUNTED\<rparr>, [LedWrite False]))
   \<and> tud_hid_set_report_cb inst rid rt [] g = (g, [])
   \<and> (blink_interval_ms g = 0 \<longrightarrow> led_blinking_task now g = (g, []))"
  by (auto simp add: tud_hid_set_report_cb_def led_blinking_task_def dest: exec_blink)

theorem blink_interval_last_writer_witness:
  "exec init_state
      [MountCb, caps_on, HidTask (good_tick 10), LedTask 5000,
       SetReportCb 0 REPORT_ID_KEYBOARD HID_REPORT_TYPE_OUTPUT [], SuspendCb True,
       ResumeCb True, SetReportCb 0 REPORT_ID_KEYBOARD HID_REPORT_TYPE_OUTPUT [0]] =
     Inr (init_state\<lparr>blink_interval_ms := BLINK_MOUNTED, app_state := STATE_WAIT_INIT,
                     state_start_ms := 10, start_ms := 10\<rparr>,
          [LedWrite True, LedWrite False])
   \<and> last_written BLINK_NOT_MOUNTED
      [MountCb, caps_on, HidTask (good_tick 10), LedTask 5000,
       SetReportCb 0 REPORT_ID_KEYBOARD HID_REPORT_TYPE_OUTPUT [], SuspendCb True,
       ResumeCb True, SetReportCb 0 REPORT_ID_KEYBOARD HID_REPORT_TYPE_OUTPUT [0]] =
     BLINK_MOUNTED"
proof -
  let ?ss = "[MountCb, caps_on, HidTask (good_tick 10), LedTask 5000,
       SetReportCb 0 REPORT_ID_KEYBOARD HID_REPORT_TYPE_OUTPUT [], SuspendCb True,
       ResumeCb True, SetReportCb 0 REPORT_ID_KEYBOARD HID_REPORT_TYPE_OUTPUT [0]]"
  let ?g = "init_state\<lparr>blink_interval_ms := BLINK_MOUNTED, app_state := STATE_WAIT_INIT,
      state_start_ms := 10, start_ms := 10\<rparr>"
  have r: "exec init_state ?ss = Inr (?g, [LedWrite True, LedWrite False])"
    by (simp add: caps_on_def init_state_def good_tick_def tud_mount_cb_def
        tud_suspend_cb_def tud_resume_cb_def tud_hid_set_report_cb_def
        led_blinking_task_def hid_task_def hid_switch_def interval_ms_def Let_def
        KEYBOARD_LED_CAPSLOCK_def)
  from blink_interval_last_writer [where g = init_state and ss = ?ss, THEN conjunct1,
      rule_format, OF r]
  have "last_written (blink_interval_ms init_state) ?ss = BLINK_MOUNTED"
    by simp
  with r show ?thesis
    by (simp add: init_state_def)
qed

section \<open>The cursor stays within the text\<close>

text \<open>
  C10. Whatever the main loop and the stack's callbacks do from power-up, no run reads
  \<open>text_to_type\<close> outside its buffer, and the cursor of the state reached is between 0
  and 12, a position the buffer has (12 is the terminating NUL). With the cursor at 12 in
  TypeChar the next tick that gets through the guards moves to Done and leaves the cursor
  at 12; nothing changes the cursor in Done; and a step that enters TypeChar from outside
  the typing loop enters it with the cursor at 0.
\<close>

theorem text_index_in_bounds:
  "(\<exists>g out. exec init_state ss = Inr (g, out)
      \<and> 0 \<le> text_index g \<and> text_index g \<le> 12
      \<and> (\<exists>c. text_read (text_index g) = Inr c)
      \<and> (\<forall>e. app_state g = STATE_TYPE_CHAR \<and> text_index g = 12 \<and>
             \<not> millis e - start_ms g < interval_ms \<and> mounted e \<and> \<not> suspended e \<and> hid_ready e \<longrightarrow>
             hid_task e g =
               Inr (g\<lparr>start_ms := start_ms g + interval_ms, app_state := STATE_DONE\<rparr>, []))
      \<and> (\<forall>s g' out'. fire s g = Inr (g', out') \<and> app_state g' = STATE_TYPE_CHAR \<and>
             app_state g \<noteq> STATE_TYPE_CHAR \<and> app_state g \<noteq> STATE_RELEASE_CHAR \<longrightarrow>
             text_index g' = 0)
      \<and> (\<forall>s g' out'. fire s g = Inr (g', out') \<and> app_state g = STATE_DONE \<longrightarrow>
             text_index g' = text_index g))"
proof -
  from exec_cursor_ok [OF cursor_ok_init] obtain g out where
    r: "exec init_state ss = Inr (g, out)" "cursor_ok g" by blast
  from r(2) have b: "0 \<le> text_index g" "text_index g \<le> 12"
    by (simp_all add: cursor_ok_def length_text)
  then have rd: "\<exists>c. text_read (text_index g) = Inr c"
    by (simp add: text_read_def length_text)
  have fin: "\<forall>e. app_state g = STATE_TYPE_CHAR \<and> text_index g = 12 \<and>
             \<not> millis e - start_ms g < interval_ms \<and> mounted e \<and> \<not> suspended e \<and> hid_ready e \<longrightarrow>
             hid_task e g =
               Inr (g\<lparr>start_ms := start_ms g + interval_ms, app_state := STATE_DONE\<rparr>, [])"
    by (simp add: hid_task_def hid_switch_def Let_def text_read_def length_text)
  have reset: "text_index g' = 0"
    if "fire s g = Inr (g', out')" "app_state g' = STATE_TYPE_CHAR"
      "app_state g \<noteq> STATE_TYPE_CHAR" "app_state g \<noteq> STATE_RELEASE_CHAR" for s g' out'
    using that
    by (cases s; cases "app_state g")
      (auto simp add: hid_task_def hid_switch_def Let_def led_blinking_task_def
        tud_mount_cb_def tud_umount_cb_def tud_suspend_cb_def tud_resume_cb_def
        tud_hid_set_report_cb_def split: if_splits prod.splits list.splits)
  have keep: "text_index g' = text_index g"
    if "fire s g = Inr (g', out')" "app_state g = STATE_DONE" for s g' out'
    using that
    by (cases s)
      (auto simp add: hid_task_def hid_switch_def Let_def led_blinking_task_def
        tud_mount_cb_def tud_umount_cb_def tud_suspend_cb_def tud_resume_cb_def
        tud_hid_set_report_cb_def split: if_splits prod.splits list.splits)
  show ?thesis
    using r(1) b rd fin reset keep by blast
qed

theorem text_index_in_bounds_witness:
  "exec init_state (map HidTask (clock_ticks 1 228)) =
     Inr (init_state\<lparr>app_state := STATE_TYPE_CHAR, state_start_ms := 10, text_index := 12,
                     start_ms := 2270\<rparr>, script_reports)
   \<and> text_read 12 = Inr (CHR 0x00)
   \<and> hid_task (good_tick 2280)
       (init_state\<lparr>app_state := STATE_TYPE_CHAR, state_start_ms := 10, text_index := 12,
                   start_ms := 2270\<rparr>) =
     Inr (init_state\<lparr>app_state := STATE_DONE, state_start_ms := 10, text_index := 12,
                     start_ms := 2280\<rparr>, [])"
proof -
  let ?g = "init_state\<lparr>app_state := STATE_TYPE_CHAR, state_start_ms := 10, text_index := 12,
      start_ms := 2270\<rparr>"
  have r: "exec init_state (map HidTask (clock_ticks 1 228)) = Inr (?g, script_reports)"
    by (simp add: clock_ticks_def good_tick_def init_state_def hid_task_def
        hid_switch_def interval_ms_def upt_rec Let_def text_read_def text_to_type_def
        send_key_press_def send_keyboard_report_def send_key_release_def
        script_reports_def press_report_def release_report_def split: prod.splits)
  from text_index_in_bounds [of "map HidTask (clock_ticks 1 228)"] r
  have fin: "\<forall>e. app_state ?g = STATE_TYPE_CHAR \<and> text_index ?g = 12 \<and>
      \<not> millis e - start_ms ?g < interval_ms \<and> mounted e \<and> \<not> suspended e \<and> hid_ready e \<longrightarrow>
      hid_task e ?g =
        Inr (?g\<lparr>start_ms := start_ms ?g + interval_ms, app_state := STATE_DONE\<rparr>, [])"
    by simp
  from fin [rule_format, of "good_tick 2280"]
  have "hid_task (good_tick 2280) ?g =
      Inr (init_state\<lparr>app_state := STATE_DONE, state_start_ms := 10, text_index := 12,
                      start_ms := 2280\<rparr>, [])"
    by (simp add: good_tick_def init_state_def interval_ms_def)
  moreover have "text_read 12 = Inr (CHR 0x00)"
    by (simp add: text_read_def text_to_type_def)
  ultimately show ?thesis
    using r by simp
qed

end
